theory Spec2Isabelle
  imports Complex_Main "HOL-Library.Multiset"
begin

section \<open>The vector store: rows, collections and a store double\<close>

text \<open>
  The repository keeps multi-vector embeddings in a Milvus collection
  (\<^verbatim>\<open>backend/app/db/milvus.py\<close>) and migrates collections to a richer schema
  (\<^verbatim>\<open>backend/app/db/migration_utils.py\<close>). The Milvus client itself is a library
  outside the repository. It is modelled here by a store double: a map from collection
  names to collections, a script of injected faults (one entry per client call, \<open>True\<close>
  makes that call raise) and a log of the calls issued, most recent first.

  A stored row has the four fields of the original schema and the five media fields
  added later; a media field is \<open>None\<close> where the row (or the projection that was
  asked for) does not carry it. Floating-point numbers are idealised as reals.
\<close>

record row =
  vector :: "real list"
  image_id :: string
  page_number :: int
  file_id :: string
  media_type :: "string option"
  timestamp_start :: "real option"
  timestamp_end :: "real option"
  duration :: "real option"
  segment_id :: "string option"

record collection =
  schema_fields :: "string list"
  dim :: int
  rows :: "row list"

datatype op =
    HasCollection | DescribeCollection | Query | Search | Insert
  | DropCollection | CreateCollection | ReleaseCollection | DropIndex
  | CreateIndex | LoadCollection | GetCollectionStats

datatype error =
    StoreError op
  | CollectionNotFound string
  | FieldNotFound string
  | KeyError string
  | IndexError
  | ValueError

record store =
  colls :: "string \<rightharpoonup> collection"
  faults :: "bool list"
  calls :: "op list"

type_synonym 'a io = "store \<Rightarrow> (error + 'a) \<times> store"

definition returnE :: "'a \<Rightarrow> 'a io" where
  "returnE x s = (Inr x, s)"

definition raiseE :: "error \<Rightarrow> 'a io" where
  "raiseE e s = (Inl e, s)"

definition bindE :: "'a io \<Rightarrow> ('a \<Rightarrow> 'b io) \<Rightarrow> 'b io" where
  "bindE m f s = (case m s of (Inl e, s1) \<Rightarrow> (Inl e, s1) | (Inr x, s1) \<Rightarrow> f x s1)"

text \<open>Every client call is logged and consumes one entry of the fault script.\<close>

definition tick :: "op \<Rightarrow> store \<Rightarrow> bool \<times> store" where
  "tick opn s =
     (case faults s of
        [] \<Rightarrow> (False, s\<lparr>calls := opn # calls s\<rparr>)
      | b # bs \<Rightarrow> (b, s\<lparr>faults := bs, calls := opn # calls s\<rparr>))"

definition client_call :: "op \<Rightarrow> 'a io \<Rightarrow> 'a io" where
  "client_call opn body s =
     (case tick opn s of
        (True, s1) \<Rightarrow> (Inl (StoreError opn), s1)
      | (False, s1) \<Rightarrow> body s1)"

subsection \<open>Filter expressions\<close>

text \<open>
  The source builds filters as strings (\<^verbatim>\<open>media_type == 'audio'\<close>,
  \<^verbatim>\<open>timestamp_start >= 10.0 and timestamp_end <= 40.0\<close>,
  \<^verbatim>\<open>image_id in ['g']\<close>, and the empty string for every row); the model keeps
  their syntax trees.
\<close>

datatype filter_expr =
    AllRows
  | StrEq string string
  | StrIn string "string list"
  | NumGe string real
  | NumLe string real
  | And filter_expr filter_expr

fun str_field :: "string \<Rightarrow> row \<Rightarrow> string option" where
  "str_field f r =
     (if f = ''image_id'' then Some (image_id r)
      else if f = ''file_id'' then Some (file_id r)
      else if f = ''media_type'' then media_type r
      else if f = ''segment_id'' then segment_id r
      else None)"

fun num_field :: "string \<Rightarrow> row \<Rightarrow> real option" where
  "num_field f r =
     (if f = ''timestamp_start'' then timestamp_start r
      else if f = ''timestamp_end'' then timestamp_end r
      else if f = ''duration'' then duration r
      else if f = ''page_number'' then Some (real_of_int (page_number r))
      else None)"

fun eval_filter :: "filter_expr \<Rightarrow> row \<Rightarrow> bool" where
  "eval_filter AllRows r = True"
| "eval_filter (StrEq f v) r = (str_field f r = Some v)"
| "eval_filter (StrIn f vs) r = (case str_field f r of None \<Rightarrow> False | Some v \<Rightarrow> v \<in> set vs)"
| "eval_filter (NumGe f x) r = (case num_field f r of None \<Rightarrow> False | Some v \<Rightarrow> x \<le> v)"
| "eval_filter (NumLe f x) r = (case num_field f r of None \<Rightarrow> False | Some v \<Rightarrow> v \<le> x)"
| "eval_filter (And a b) r = (eval_filter a r \<and> eval_filter b r)"

fun filter_fields :: "filter_expr \<Rightarrow> string list" where
  "filter_fields AllRows = []"
| "filter_fields (StrEq f v) = [f]"
| "filter_fields (StrIn f vs) = [f]"
| "filter_fields (NumGe f x) = [f]"
| "filter_fields (NumLe f x) = [f]"
| "filter_fields (And a b) = filter_fields a @ filter_fields b"

definition unknown_fields :: "collection \<Rightarrow> string list \<Rightarrow> string list" where
  "unknown_fields c fs = filter (\<lambda>f. f \<noteq> ''*'' \<and> f \<notin> set (schema_fields c)) fs"

text \<open>
  What a read returns of a row: with \<^verbatim>\<open>"*"\<close> everything, otherwise the media
  fields that were asked for. Both field lists of the source name the four original
  fields, which are always returned.
\<close>

definition project :: "string list \<Rightarrow> row \<Rightarrow> row" where
  "project ofs r =
     (if ''*'' \<in> set ofs then r
      else r\<lparr>media_type := (if ''media_type'' \<in> set ofs then media_type r else None),
              timestamp_start := (if ''timestamp_start'' \<in> set ofs then timestamp_start r else None),
              timestamp_end := (if ''timestamp_end'' \<in> set ofs then timestamp_end r else None),
              duration := (if ''duration'' \<in> set ofs then duration r else None),
              segment_id := (if ''segment_id'' \<in> set ofs then segment_id r else None)\<rparr>)"

definition inner_prod :: "real list \<Rightarrow> real list \<Rightarrow> real" where
  "inner_prod q v = sum_list (map2 (*) q v)"

subsection \<open>The client operations of the double\<close>

definition client_has_collection :: "string \<Rightarrow> bool io" where
  "client_has_collection name =
     client_call HasCollection (\<lambda>s. (Inr (colls s name \<noteq> None), s))"

definition client_describe_collection :: "string \<Rightarrow> (string list) io" where
  "client_describe_collection name =
     client_call DescribeCollection (\<lambda>s.
       case colls s name of
         None \<Rightarrow> (Inl (CollectionNotFound name), s)
       | Some c \<Rightarrow> (Inr (schema_fields c), s))"

definition client_query :: "string \<Rightarrow> filter_expr \<Rightarrow> string list \<Rightarrow> nat \<Rightarrow> nat \<Rightarrow> (row list) io" where
  "client_query name flt ofs limit offset =
     client_call Query (\<lambda>s.
       case colls s name of
         None \<Rightarrow> (Inl (CollectionNotFound name), s)
       | Some c \<Rightarrow>
           (case unknown_fields c (filter_fields flt @ ofs) of
              f # _ \<Rightarrow> (Inl (FieldNotFound f), s)
            | [] \<Rightarrow>
                (Inr (map (project ofs)
                        (take limit (drop offset (filter (eval_filter flt) (rows c))))), s)))"

text \<open>
  The coarse search: for every query vector the \<open>limit\<close> rows of largest inner
  product among those that pass the filter.
\<close>

definition client_search ::
  "string \<Rightarrow> real list list \<Rightarrow> nat \<Rightarrow> string list \<Rightarrow> filter_expr \<Rightarrow> (row list list) io" where
  "client_search name data limit ofs flt =
     client_call Search (\<lambda>s.
       case colls s name of
         None \<Rightarrow> (Inl (CollectionNotFound name), s)
       | Some c \<Rightarrow>
           (case unknown_fields c (filter_fields flt @ ofs) of
              f # _ \<Rightarrow> (Inl (FieldNotFound f), s)
            | [] \<Rightarrow>
                (Inr (map (\<lambda>q. map (project ofs)
                             (take limit
                                (sort_key (\<lambda>r. - inner_prod q (vector r))
                                   (filter (eval_filter flt) (rows c)))))
                        data), s)))"

definition client_insert :: "string \<Rightarrow> row list \<Rightarrow> unit io" where
  "client_insert name rs =
     client_call Insert (\<lambda>s.
       case colls s name of
         None \<Rightarrow> (Inl (CollectionNotFound name), s)
       | Some c \<Rightarrow> (Inr (), s\<lparr>colls := (colls s)(name \<mapsto> c\<lparr>rows := rows c @ rs\<rparr>)\<rparr>))"

definition client_drop_collection :: "string \<Rightarrow> unit io" where
  "client_drop_collection name =
     client_call DropCollection (\<lambda>s. (Inr (), s\<lparr>colls := (colls s)(name := None)\<rparr>))"

definition client_create_collection :: "string \<Rightarrow> string list \<Rightarrow> int \<Rightarrow> unit io" where
  "client_create_collection name fs d =
     client_call CreateCollection (\<lambda>s.
       case colls s name of
         Some c \<Rightarrow> (Inr (), s)
       | None \<Rightarrow>
           (Inr (), s\<lparr>colls := (colls s)(name \<mapsto> \<lparr>schema_fields = fs, dim = d, rows = []\<rparr>)\<rparr>))"

text \<open>Index maintenance does not change the rows; it can only fail.\<close>

definition client_index_op :: "op \<Rightarrow> string \<Rightarrow> unit io" where
  "client_index_op opn name =
     client_call opn (\<lambda>s.
       case colls s name of
         None \<Rightarrow> (Inl (CollectionNotFound name), s)
       | Some c \<Rightarrow> (Inr (), s))"

definition client_get_collection_stats :: "string \<Rightarrow> int io" where
  "client_get_collection_stats name =
     client_call GetCollectionStats (\<lambda>s.
       case colls s name of
         None \<Rightarrow> (Inl (CollectionNotFound name), s)
       | Some c \<Rightarrow> (Inr (int (length (rows c))), s))"

section \<open>MilvusManager: creating a collection\<close>

definition new_schema_fields :: "string list" where
  "new_schema_fields =
     [''pk'', ''vector'', ''image_id'', ''page_number'', ''file_id'',
      ''media_type'', ''timestamp_start'', ''timestamp_end'', ''duration'', ''segment_id'']"

text \<open>
  \<^verbatim>\<open>record.get(key, default)\<close> for the five media fields; the four original
  fields are carried over.
\<close>

definition migrate_record :: "row \<Rightarrow> row" where
  "migrate_record record =
     record\<lparr>media_type := Some (case media_type record of None \<Rightarrow> ''image'' | Some m \<Rightarrow> m),
            timestamp_start := Some (case timestamp_start record of None \<Rightarrow> 0 | Some t \<Rightarrow> t),
            timestamp_end := Some (case timestamp_end record of None \<Rightarrow> 0 | Some t \<Rightarrow> t),
            duration := Some (case duration record of None \<Rightarrow> 0 | Some t \<Rightarrow> t),
            segment_id := Some (case segment_id record of None \<Rightarrow> [] | Some g \<Rightarrow> g)\<rparr>"

definition create_index :: "string \<Rightarrow> unit io" where
  "create_index collection_name =
     bindE (client_index_op ReleaseCollection collection_name) (\<lambda>_.
     bindE (client_index_op DropIndex collection_name) (\<lambda>_.
     bindE (client_index_op CreateIndex collection_name) (\<lambda>_.
     client_index_op LoadCollection collection_name)))"

text \<open>\<^verbatim>\<open>_backup_collection_data\<close>: any exception is caught and gives \<open>None\<close>.\<close>

definition backup_collection_data :: "string \<Rightarrow> store \<Rightarrow> row list option \<times> store" where
  "backup_collection_data collection_name s =
     (case bindE (client_has_collection collection_name) (\<lambda>ex.
             if \<not> ex then returnE None
             else bindE (client_query collection_name AllRows [''*''] 100000 0)
                    (\<lambda>all_data. returnE (Some all_data))) s of
        (Inr r, s1) \<Rightarrow> (r, s1)
      | (Inl e, s1) \<Rightarrow> (None, s1))"

definition restore_collection_data :: "string \<Rightarrow> row list option \<Rightarrow> unit io" where
  "restore_collection_data collection_name data_records =
     (case data_records of
        None \<Rightarrow> returnE ()
      | Some [] \<Rightarrow> returnE ()
      | Some rs \<Rightarrow> client_insert collection_name (map migrate_record rs))"

definition truthy :: "'a list option \<Rightarrow> bool" where
  "truthy x = (case x of None \<Rightarrow> False | Some [] \<Rightarrow> False | Some _ \<Rightarrow> True)"

definition create_collection :: "string \<Rightarrow> int \<Rightarrow> bool \<Rightarrow> unit io" where
  "create_collection collection_name d migrate_existing =
     bindE (client_has_collection collection_name) (\<lambda>ex.
     bindE (\<lambda>s. if ex \<and> migrate_existing
                 then (case backup_collection_data collection_name s of
                         (existing_data, s1) \<Rightarrow> (Inr existing_data, s1))
                 else (Inr None, s)) (\<lambda>existing_data.
     bindE (client_has_collection collection_name) (\<lambda>ex2.
     bindE (if ex2 then client_drop_collection collection_name else returnE ()) (\<lambda>_.
     bindE (client_create_collection collection_name new_schema_fields d) (\<lambda>_.
     bindE (create_index collection_name) (\<lambda>_.
       if truthy existing_data \<and> migrate_existing
       then restore_collection_data collection_name existing_data
       else returnE ()))))))"

section \<open>DatabaseMigrationManager\<close>

datatype message =
    Msg_does_not_exist
  | Msg_missing_fields "string list"
  | Msg_compatible
  | Msg_check_error error
  | Msg_migrated string
  | Msg_migration_failed string error
  | Msg_not_exist_after
  | Msg_validation_passed int
  | Msg_count_mismatch int int
  | Msg_validation_failed error

record compatibility =
  c_exists :: bool
  c_compatible :: bool
  c_needs_migration :: bool
  c_missing_fields :: "string list option"
  c_error :: "error option"
  c_message :: message

record validation_result =
  v_success :: bool
  v_record_count :: "int option"
  v_error :: "error option"
  v_message :: message

record migration_result =
  success :: bool
  backup_created :: bool
  data_migrated :: bool
  records_processed :: nat
  errors :: "message list"
  message :: "message option"
  validation :: "validation_result option"

definition required_new_fields :: "string list" where
  "required_new_fields =
     [''media_type'', ''timestamp_start'', ''timestamp_end'', ''duration'', ''segment_id'']"

text \<open>The body of the \<^verbatim>\<open>try\<close> of \<^verbatim>\<open>check_schema_compatibility\<close>.\<close>

definition check_schema_try :: "string \<Rightarrow> compatibility io" where
  "check_schema_try collection_name =
     bindE (client_has_collection collection_name) (\<lambda>ex.
       if \<not> ex
       then returnE \<lparr>c_exists = False, c_compatible = True, c_needs_migration = False,
                     c_missing_fields = None, c_error = None, c_message = Msg_does_not_exist\<rparr>
       else bindE (client_describe_collection collection_name) (\<lambda>existing_fields.
         let missing_fields = filter (\<lambda>field. field \<notin> set existing_fields) required_new_fields
         in if missing_fields \<noteq> []
            then returnE \<lparr>c_exists = True, c_compatible = False, c_needs_migration = True,
                          c_missing_fields = Some missing_fields, c_error = None,
                          c_message = Msg_missing_fields missing_fields\<rparr>
            else returnE \<lparr>c_exists = True, c_compatible = True, c_needs_migration = False,
                          c_missing_fields = None, c_error = None,
                          c_message = Msg_compatible\<rparr>))"

definition check_schema_compatibility :: "string \<Rightarrow> store \<Rightarrow> compatibility \<times> store" where
  "check_schema_compatibility collection_name s =
     (case check_schema_try collection_name s of
        (Inr c, s1) \<Rightarrow> (c, s1)
      | (Inl e, s1) \<Rightarrow>
          (\<lparr>c_exists = False, c_compatible = False, c_needs_migration = False,
            c_missing_fields = None, c_error = Some e, c_message = Msg_check_error e\<rparr>, s1))"

text \<open>
  \<^verbatim>\<open>_create_safe_backup\<close>: pages of 1000 rows, the offset advancing by the size of
  each page, until a page is empty or short. The loop is the body of the \<^verbatim>\<open>try\<close>.
\<close>

function backup_loop :: "string \<Rightarrow> row list \<Rightarrow> nat \<Rightarrow> (row list) io" where
  "backup_loop collection_name all_data offset s =
     (case client_query collection_name AllRows [''*''] 1000 offset s of
        (Inl e, s1) \<Rightarrow> (Inl e, s1)
      | (Inr batch_data, s1) \<Rightarrow>
          if batch_data = [] then (Inr all_data, s1)
          else if length batch_data < 1000 then (Inr (all_data @ batch_data), s1)
          else backup_loop collection_name (all_data @ batch_data)
                 (offset + length batch_data) s1)"
  by pat_completeness auto

termination backup_loop
proof (relation "measure (\<lambda>(name, all_data, offset, s).
                   case colls s name of None \<Rightarrow> 0 | Some c \<Rightarrow> length (rows c) - offset)",
       goal_cases)
  case 1
  show ?case by simp
next
  case (2 collection_name all_data offset s x s1 batch_data)
  from 2(1)[symmetric] 2(2)
  have q: "client_query collection_name AllRows [''*''] 1000 offset s = (Inr batch_data, s1)"
    by simp
  obtain b s0 where t: "tick Query s = (b, s0)" by (cases "tick Query s")
  then have s0: "colls s0 = colls s"
    by (auto simp: tick_def split: list.splits)
  from q t obtain c where c: "colls s0 collection_name = Some c" and s1: "s1 = s0"
    and batch: "batch_data = map (project [''*'']) (take 1000 (drop offset (rows c)))"
    by (auto simp: client_query_def client_call_def
             split: bool.splits option.splits list.splits)
  have "length batch_data \<le> length (rows c) - offset" unfolding batch by simp
  moreover from 2(3) have "0 < length batch_data" by simp
  ultimately have "length (rows c) - (offset + length batch_data) < length (rows c) - offset"
    by arith
  with c s0 s1 show ?case by simp
qed

declare backup_loop.simps [simp del]

definition create_safe_backup :: "string \<Rightarrow> store \<Rightarrow> row list option \<times> store" where
  "create_safe_backup collection_name s =
     (case backup_loop collection_name [] 0 s of
        (Inr all_data, s1) \<Rightarrow> (Some all_data, s1)
      | (Inl e, s1) \<Rightarrow> (None, s1))"

text \<open>
  \<^verbatim>\<open>_restore_with_new_schema\<close>: batches of 100 rows, each converted and inserted;
  an exception is raised again.
\<close>

function restore_loop :: "string \<Rightarrow> row list \<Rightarrow> nat \<Rightarrow> nat \<Rightarrow> nat io" where
  "restore_loop collection_name backup_data i migrated_count s =
     (if i < length backup_data
      then (if map migrate_record (take 100 (drop i backup_data)) \<noteq> []
            then (case client_insert collection_name
                         (map migrate_record (take 100 (drop i backup_data))) s of
                    (Inl e, s1) \<Rightarrow> (Inl e, s1)
                  | (Inr u, s1) \<Rightarrow>
                      restore_loop collection_name backup_data (i + 100)
                        (migrated_count
                           + length (map migrate_record (take 100 (drop i backup_data)))) s1)
            else restore_loop collection_name backup_data (i + 100) migrated_count s)
      else (Inr migrated_count, s))"
  by pat_completeness auto
termination
  by (relation "measure (\<lambda>(name, backup_data, i, n, s). length backup_data - i)") auto

declare restore_loop.simps [simp del]

definition restore_with_new_schema :: "string \<Rightarrow> row list \<Rightarrow> nat io" where
  "restore_with_new_schema collection_name backup_data =
     restore_loop collection_name backup_data 0 0"

text \<open>
  The part of \<^verbatim>\<open>safe_migrate_collection\<close> after the backup: drop, recreate, restore.
  It returns the number of restored rows, or \<open>None\<close> when there was nothing to restore.
\<close>

definition migration_steps ::
  "string \<Rightarrow> int \<Rightarrow> compatibility \<Rightarrow> row list option \<Rightarrow> (nat option) io" where
  "migration_steps collection_name d compatibility backup_data =
     bindE (if c_exists compatibility then client_drop_collection collection_name else returnE ()) (\<lambda>_.
     bindE (create_collection collection_name d False) (\<lambda>_.
       case backup_data of
         Some (r # rs) \<Rightarrow>
           bindE (restore_with_new_schema collection_name (r # rs))
             (\<lambda>migrated_count. returnE (Some migrated_count))
       | _ \<Rightarrow> returnE None))"

definition safe_migrate_collection ::
  "string \<Rightarrow> int \<Rightarrow> bool \<Rightarrow> store \<Rightarrow> migration_result \<times> store" where
  "safe_migrate_collection collection_name d backup s =
     (let migration_result =
            \<lparr>success = False, backup_created = False, data_migrated = False,
             records_processed = 0, errors = [], message = None, validation = None\<rparr>
      in case check_schema_compatibility collection_name s of
           (compatibility, s1) \<Rightarrow>
             if \<not> c_needs_migration compatibility
             then (migration_result\<lparr>success := True, message := Some (c_message compatibility)\<rparr>, s1)
             else
               (case (if backup \<and> c_exists compatibility
                      then create_safe_backup collection_name s1 else (None, s1)) of
                  (backup_data, s2) \<Rightarrow>
                    let migration_result =
                          (if backup \<and> c_exists compatibility
                           then migration_result\<lparr>backup_created := (backup_data \<noteq> None)\<rparr>
                           else migration_result)
                    in (case migration_steps collection_name d compatibility backup_data s2 of
                         (Inr migrated, s3) \<Rightarrow>
                           ((case migrated of
                               None \<Rightarrow> migration_result
                             | Some migrated_count \<Rightarrow>
                                 migration_result\<lparr>data_migrated := True,
                                                  records_processed := migrated_count\<rparr>)
                              \<lparr>success := True, message := Some (Msg_migrated collection_name)\<rparr>,
                            s3)
                       | (Inl e, s3) \<Rightarrow>
                           (migration_result
                              \<lparr>errors := (errors migration_result
                                            @ [Msg_migration_failed collection_name e]),
                               message := Some (Msg_migration_failed collection_name e)\<rparr>,
                            s3))))"

definition validate_try :: "string \<Rightarrow> int option \<Rightarrow> validation_result io" where
  "validate_try collection_name expected_count =
     bindE (client_has_collection collection_name) (\<lambda>ex.
       if \<not> ex
       then returnE \<lparr>v_success = False, v_record_count = None, v_error = None,
                     v_message = Msg_not_exist_after\<rparr>
       else bindE (client_get_collection_stats collection_name) (\<lambda>actual_count.
         let result = \<lparr>v_success = True, v_record_count = Some actual_count, v_error = None,
                       v_message = Msg_validation_passed actual_count\<rparr>
         in returnE
              (case expected_count of
                 None \<Rightarrow> result
               | Some expected \<Rightarrow>
                   if actual_count \<noteq> expected
                   then result\<lparr>v_success := False,
                               v_message := Msg_count_mismatch expected actual_count\<rparr>
                   else result)))"

definition validate_migration ::
  "string \<Rightarrow> int option \<Rightarrow> store \<Rightarrow> validation_result \<times> store" where
  "validate_migration collection_name expected_count s =
     (case validate_try collection_name expected_count s of
        (Inr r, s1) \<Rightarrow> (r, s1)
      | (Inl e, s1) \<Rightarrow>
          (\<lparr>v_success = False, v_record_count = None, v_error = Some e,
            v_message = Msg_validation_failed e\<rparr>, s1))"

definition perform_safe_migration :: "string \<Rightarrow> int \<Rightarrow> store \<Rightarrow> migration_result \<times> store" where
  "perform_safe_migration collection_name d s =
     (case safe_migrate_collection collection_name d True s of
        (result, s1) \<Rightarrow>
          if success result
          then (case validate_migration collection_name None s1 of
                  (v, s2) \<Rightarrow> (result\<lparr>validation := Some v\<rparr>, s2))
          else (result, s1))"

section \<open>MilvusManager: insert\<close>

text \<open>The argument of \<^verbatim>\<open>insert\<close>; the media keys are optional.\<close>

record insert_data =
  colqwen_vecs :: "real list list"
  d_image_id :: string
  d_page_number :: int
  d_file_id :: string
  d_media_type :: "string option"
  d_timestamp_start :: "real option"
  d_timestamp_end :: "real option"
  d_duration :: "real option"
  d_segment_id :: "string option"

definition get_default :: "'a option \<Rightarrow> 'a \<Rightarrow> 'a" where
  "get_default v dflt = (case v of None \<Rightarrow> dflt | Some x \<Rightarrow> x)"

definition insert_rows :: "insert_data \<Rightarrow> row list" where
  "insert_rows data =
     (let vecs = colqwen_vecs data;
          seq_length = length vecs
      in map (\<lambda>i. \<lparr>vector = vecs ! i,
                     image_id = d_image_id data,
                     page_number = d_page_number data,
                     file_id = d_file_id data,
                     media_type = Some (get_default (d_media_type data) ''image''),
                     timestamp_start = Some (get_default (d_timestamp_start data) 0),
                     timestamp_end = Some (get_default (d_timestamp_end data) 0),
                     duration = Some (get_default (d_duration data) 0),
                     segment_id = Some (get_default (d_segment_id data) [])\<rparr>)
           [0..<seq_length])"

definition milvus_insert :: "insert_data \<Rightarrow> string \<Rightarrow> unit io" where
  "milvus_insert data collection_name = client_insert collection_name (insert_rows data)"

fun forE :: "'a list \<Rightarrow> ('a \<Rightarrow> unit io) \<Rightarrow> unit io" where
  "forE [] f s = (Inr (), s)"
| "forE (x # xs) f s = (case f x s of (Inl e, s1) \<Rightarrow> (Inl e, s1) | (Inr u, s1) \<Rightarrow> forE xs f s1)"

text \<open>\<^verbatim>\<open>insert_to_milvus\<close> of \<^verbatim>\<open>rag/utils.py\<close>: one insert per embedding.\<close>

definition insert_to_milvus ::
  "string \<Rightarrow> real list list list \<Rightarrow> string list \<Rightarrow> string \<Rightarrow> unit io" where
  "insert_to_milvus collection_name embeddings image_ids fid =
     forE (enumerate 0 embeddings) (\<lambda>(i, emb).
       if i < length image_ids
       then milvus_insert
              \<lparr>colqwen_vecs = emb, d_image_id = image_ids ! i, d_page_number = int i,
               d_file_id = fid, d_media_type = None, d_timestamp_start = None,
               d_timestamp_end = None, d_duration = None, d_segment_id = None\<rparr>
              collection_name
       else raiseE IndexError)"

section \<open>MilvusManager: search and rerank\<close>

record metadata =
  m_image_id :: string
  m_file_id :: "string option"
  m_page_number :: "int option"
  m_media_type :: "string option"
  m_timestamp_start :: "real option"
  m_timestamp_end :: "real option"
  m_duration :: "real option"
  m_segment_id :: "string option"

record scored =
  score :: real
  r_image_id :: string
  r_file_id :: "string option"
  r_page_number :: "int option"
  r_media_type :: string
  r_timestamp_start :: real
  r_timestamp_end :: real
  r_duration :: real
  r_segment_id :: string

subsection \<open>The numpy operations of the score\<close>

text \<open>
  \<^verbatim>\<open>np.vstack\<close> needs at least one row and rows of one length;
  \<^verbatim>\<open>np.dot(data, doc_vecs.T)\<close> needs a non-empty two-dimensional \<open>data\<close> whose
  rows have the length of the document vectors, and its entry \<open>(i, j)\<close> is the inner
  product of query vector \<open>i\<close> and document vector \<open>j\<close>; \<^verbatim>\<open>.max(1)\<close> is the
  maximum of every row and fails on an empty one.
\<close>

definition np_vstack :: "real list list \<Rightarrow> error + real list list" where
  "np_vstack vs =
     (case vs of
        [] \<Rightarrow> Inl ValueError
      | v # rest \<Rightarrow> if \<forall>u \<in> set rest. length u = length v then Inr vs else Inl ValueError)"

definition np_dot_T :: "real list list \<Rightarrow> real list list \<Rightarrow> error + real list list" where
  "np_dot_T data doc_vecs =
     (case doc_vecs of
        [] \<Rightarrow> Inl ValueError
      | v # rest \<Rightarrow>
          if data = [] \<or> (\<exists>q \<in> set data. length q \<noteq> length v) then Inl ValueError
          else Inr (map (\<lambda>q. map (inner_prod q) doc_vecs) data))"

fun row_max :: "real list \<Rightarrow> error + real" where
  "row_max [] = Inl ValueError"
| "row_max (x # xs) = Inr (fold max xs x)"

fun np_max_axis1 :: "real list list \<Rightarrow> error + real list" where
  "np_max_axis1 [] = Inr []"
| "np_max_axis1 (r # rs) =
     (case row_max r of
        Inl e \<Rightarrow> Inl e
      | Inr m \<Rightarrow> (case np_max_axis1 rs of Inl e \<Rightarrow> Inl e | Inr ms \<Rightarrow> Inr (m # ms)))"

definition late_interaction :: "real list list \<Rightarrow> real list list \<Rightarrow> error + real" where
  "late_interaction data vecs =
     (case np_vstack vecs of
        Inl e \<Rightarrow> Inl e
      | Inr doc_vecs \<Rightarrow>
          (case np_dot_T data doc_vecs of
             Inl e \<Rightarrow> Inl e
           | Inr sims \<Rightarrow>
               (case np_max_axis1 sims of
                  Inl e \<Rightarrow> Inl e
                | Inr maxima \<Rightarrow> Inr (sum_list maxima))))"

subsection \<open>Reranking one group\<close>

text \<open>
  The metadata that \<^verbatim>\<open>rerank_single_doc\<close> returns: for a group without rows only
  the three original keys, with \<^verbatim>\<open>None\<close> for the file and the page; otherwise the
  first fetched row decides, with the defaults for the media keys.
\<close>

definition dangling_metadata :: "string \<Rightarrow> metadata" where
  "dangling_metadata img_id =
     \<lparr>m_image_id = img_id, m_file_id = None, m_page_number = None,
      m_media_type = None, m_timestamp_start = None,
      m_timestamp_end = None, m_duration = None, m_segment_id = None\<rparr>"

definition group_metadata :: "string \<Rightarrow> row \<Rightarrow> bool \<Rightarrow> metadata" where
  "group_metadata img_id first_record use_old_schema =
     (if use_old_schema
      then \<lparr>m_image_id = img_id,
            m_file_id = Some (file_id first_record),
            m_page_number = Some (page_number first_record),
            m_media_type = Some ''image'',
            m_timestamp_start = Some 0,
            m_timestamp_end = Some 0,
            m_duration = Some 0,
            m_segment_id = Some []\<rparr>
      else \<lparr>m_image_id = img_id,
            m_file_id = Some (file_id first_record),
            m_page_number = Some (page_number first_record),
            m_media_type = Some (get_default (media_type first_record) ''image''),
            m_timestamp_start = Some (get_default (timestamp_start first_record) 0),
            m_timestamp_end = Some (get_default (timestamp_end first_record) 0),
            m_duration = Some (get_default (duration first_record) 0),
            m_segment_id = Some (get_default (segment_id first_record) [])\<rparr>)"

definition rerank_single_doc ::
  "string \<Rightarrow> real list list \<Rightarrow> string \<Rightarrow> string list \<Rightarrow> bool \<Rightarrow> (real \<times> metadata) io" where
  "rerank_single_doc img_id data collection_name output_fields use_old_schema =
     bindE (client_query collection_name (StrIn ''image_id'' [img_id]) output_fields 1000 0)
       (\<lambda>doc_colbert_vecs.
          case doc_colbert_vecs of
            [] \<Rightarrow> returnE (0, dangling_metadata img_id)
          | first_record # others \<Rightarrow>
              (let metadata = group_metadata img_id first_record use_old_schema
               in (case late_interaction data (map vector doc_colbert_vecs) of
                     Inl e \<Rightarrow> raiseE e
                   | Inr sc \<Rightarrow> returnE (sc, metadata))))"

subsection \<open>The pool, the sort and the truncation\<close>

text \<open>
  The worker pool runs one \<^verbatim>\<open>rerank_single_doc\<close> per group and the results are
  collected in the order in which they complete. The model runs them one after the other
  in that order; an exception of one of them is raised when its result is read.
\<close>

fun run_pool ::
  "string list \<Rightarrow> (string \<Rightarrow> (real \<times> metadata) io) \<Rightarrow> store
     \<Rightarrow> (error + real \<times> metadata) list \<times> store" where
  "run_pool [] task s = ([], s)"
| "run_pool (i # ids) task s =
     (case task i s of
        (r, s1) \<Rightarrow> (case run_pool ids task s1 of (rs, s2) \<Rightarrow> (r # rs, s2)))"

fun gather :: "(error + 'a) list \<Rightarrow> error + 'a list" where
  "gather [] = Inr []"
| "gather (Inl e # rest) = Inl e"
| "gather (Inr x # rest) = (case gather rest of Inl e \<Rightarrow> Inl e | Inr xs \<Rightarrow> Inr (x # xs))"

text \<open>Python's \<^verbatim>\<open>xs[:k]\<close>: a negative \<open>k\<close> counts from the end.\<close>

definition slice_to :: "int \<Rightarrow> 'a list \<Rightarrow> 'a list" where
  "slice_to k xs = (if 0 \<le> k then take (nat k) xs else take (length xs - nat (- k)) xs)"

text \<open>One entry of the returned list; a key missing from the metadata raises.\<close>

definition result_entry :: "real \<times> metadata \<Rightarrow> error + scored" where
  "result_entry x =
     (case x of (sc, md) \<Rightarrow>
        (case m_media_type md of None \<Rightarrow> Inl (KeyError ''media_type'') | Some mt \<Rightarrow>
        (case m_timestamp_start md of None \<Rightarrow> Inl (KeyError ''timestamp_start'') | Some ts \<Rightarrow>
        (case m_timestamp_end md of None \<Rightarrow> Inl (KeyError ''timestamp_end'') | Some te \<Rightarrow>
        (case m_duration md of None \<Rightarrow> Inl (KeyError ''duration'') | Some du \<Rightarrow>
        (case m_segment_id md of None \<Rightarrow> Inl (KeyError ''segment_id'') | Some sg \<Rightarrow>
           Inr \<lparr>score = sc, r_image_id = m_image_id md, r_file_id = m_file_id md,
                r_page_number = m_page_number md, r_media_type = mt,
                r_timestamp_start = ts, r_timestamp_end = te, r_duration = du,
                r_segment_id = sg\<rparr>))))))"

definition image_ids_of :: "row list list \<Rightarrow> string list" where
  "image_ids_of results = remdups (map image_id (concat results))"

definition process_search_results ::
  "(string list \<Rightarrow> string list) \<Rightarrow> row list list \<Rightarrow> real list list \<Rightarrow> string \<Rightarrow> int
     \<Rightarrow> string list \<Rightarrow> bool \<Rightarrow> (scored list) io" where
  "process_search_results completion results data collection_name topk output_fields
     use_old_schema s =
     (let image_ids = image_ids_of results
      in case run_pool (completion image_ids)
                (\<lambda>img_id. rerank_single_doc img_id data collection_name output_fields
                             use_old_schema) s of
           (outcomes, s1) \<Rightarrow>
             (case gather outcomes of
                Inl e \<Rightarrow> (Inl e, s1)
              | Inr scores \<Rightarrow>
                  (gather (map result_entry
                             (slice_to topk (sort_key (\<lambda>x. - fst x) scores))), s1)))"

definition new_output_fields :: "string list" where
  "new_output_fields =
     [''vector'', ''image_id'', ''page_number'', ''file_id'',
      ''media_type'', ''timestamp_start'', ''timestamp_end'', ''duration'', ''segment_id'']"

definition old_output_fields :: "string list" where
  "old_output_fields = [''vector'', ''image_id'', ''page_number'', ''file_id'']"

text \<open>
  The filter of \<^verbatim>\<open>_search_with_new_schema\<close>: an empty media type and a time range
  that is not a pair count as absent.
\<close>

definition build_filter :: "string option \<Rightarrow> real list option \<Rightarrow> filter_expr option" where
  "build_filter media_type_filter time_range_filter =
     (let filter_expr =
            (case media_type_filter of
               None \<Rightarrow> None
             | Some m \<Rightarrow> if m = [] then None else Some (StrEq ''media_type'' m))
      in case time_range_filter of
           Some [start_time, end_time] \<Rightarrow>
             (let time_filter =
                    And (NumGe ''timestamp_start'' start_time) (NumLe ''timestamp_end'' end_time)
              in (case filter_expr of
                    Some f \<Rightarrow> Some (And f time_filter)
                  | None \<Rightarrow> Some time_filter))
         | _ \<Rightarrow> filter_expr)"

definition search_with_new_schema ::
  "(string list \<Rightarrow> string list) \<Rightarrow> string \<Rightarrow> real list list \<Rightarrow> int
     \<Rightarrow> string option \<Rightarrow> real list option \<Rightarrow> (scored list) io" where
  "search_with_new_schema completion collection_name data topk media_type_filter
     time_range_filter =
     bindE (client_search collection_name data 50 new_output_fields
              (case build_filter media_type_filter time_range_filter of
                 None \<Rightarrow> AllRows
               | Some filter_expr \<Rightarrow> filter_expr))
       (\<lambda>results. process_search_results completion results data collection_name topk
                     new_output_fields False)"

definition search_with_old_schema ::
  "(string list \<Rightarrow> string list) \<Rightarrow> string \<Rightarrow> real list list \<Rightarrow> int \<Rightarrow> (scored list) io" where
  "search_with_old_schema completion collection_name data topk =
     bindE (client_search collection_name data 50 old_output_fields AllRows)
       (\<lambda>results. process_search_results completion results data collection_name topk
                     old_output_fields True)"

definition search ::
  "(string list \<Rightarrow> string list) \<Rightarrow> string \<Rightarrow> real list list \<Rightarrow> int
     \<Rightarrow> string option \<Rightarrow> real list option \<Rightarrow> (scored list) io" where
  "search completion collection_name data topk media_type_filter time_range_filter s =
     (case search_with_new_schema completion collection_name data topk media_type_filter
             time_range_filter s of
        (Inr out, s1) \<Rightarrow> (Inr out, s1)
      | (Inl e, s1) \<Rightarrow> search_with_old_schema completion collection_name data topk s1)"

section \<open>Auxiliary notions and example stores\<close>

text \<open>A computation is read-only when it leaves the collections as they are.\<close>

definition read_only :: "'a io \<Rightarrow> bool" where
  "read_only m = (\<forall>s r s1. m s = (r, s1) \<longrightarrow> colls s1 = colls s)"

text \<open>A store is healthy when no fault is pending.\<close>

definition healthy :: "store \<Rightarrow> bool" where
  "healthy s = (True \<notin> set (faults s))"

text \<open>
  The completion order of the pool is some reordering of the groups that were submitted.
\<close>

definition reorders :: "(string list \<Rightarrow> string list) \<Rightarrow> bool" where
  "reorders completion = (\<forall>xs. mset (completion xs) = mset xs)"

text \<open>
  What a successful \<^verbatim>\<open>rerank_single_doc\<close> of group \<open>g\<close> can return on a store: the
  metadata of a dangling group, or the metadata of a row of the group.
\<close>

definition rerank_outcome ::
  "store \<Rightarrow> string \<Rightarrow> string list \<Rightarrow> bool \<Rightarrow> string \<Rightarrow> real \<times> metadata \<Rightarrow> bool" where
  "rerank_outcome s collection_name output_fields use_old_schema g x =
     (snd x = dangling_metadata g
      \<or> (\<exists>c r. colls s collection_name = Some c \<and> r \<in> set (rows c) \<and> image_id r = g
             \<and> snd x = group_metadata g (project output_fields r) use_old_schema))"

text \<open>The rows of one group carry the same media type and time range.\<close>

definition uniform_groups :: "collection \<Rightarrow> bool" where
  "uniform_groups c =
     (\<forall>r \<in> set (rows c). \<forall>r' \<in> set (rows c).
        image_id r = image_id r' \<longrightarrow>
          media_type r = media_type r' \<and> timestamp_start r = timestamp_start r'
          \<and> timestamp_end r = timestamp_end r')"

text \<open>The store after a client call that did not fail.\<close>

definition advance :: "op \<Rightarrow> store \<Rightarrow> store" where
  "advance opn s = s\<lparr>faults := tl (faults s), calls := opn # calls s\<rparr>"

text \<open>A collection created before the media fields existed, holding one row.\<close>

definition legacy_row :: row where
  "legacy_row =
     \<lparr>vector = [1, 0], image_id = ''g1'', page_number = 0, file_id = ''f1'',
      media_type = None, timestamp_start = None, timestamp_end = None, duration = None,
      segment_id = None\<rparr>"

definition legacy_collection :: collection where
  "legacy_collection =
     \<lparr>schema_fields = [''pk'', ''vector'', ''image_id'', ''page_number'', ''file_id''],
      dim = 2, rows = [legacy_row]\<rparr>"

definition legacy_store :: "bool list \<Rightarrow> store" where
  "legacy_store fs = \<lparr>colls = [''kb'' \<mapsto> legacy_collection], faults = fs, calls = []\<rparr>"

text \<open>A collection that already has the media fields.\<close>

definition audio_row :: row where
  "audio_row =
     \<lparr>vector = [0, 1], image_id = ''g2'', page_number = 0, file_id = ''f2'',
      media_type = Some ''audio'', timestamp_start = Some 10, timestamp_end = Some 20,
      duration = Some 10, segment_id = Some ''g2''\<rparr>"

definition current_collection :: collection where
  "current_collection = \<lparr>schema_fields = new_schema_fields, dim = 2, rows = [audio_row]\<rparr>"

definition current_store :: "bool list \<Rightarrow> store" where
  "current_store fs = \<lparr>colls = [''kb'' \<mapsto> current_collection], faults = fs, calls = []\<rparr>"

text \<open>A collection of the current schema without rows.\<close>

definition empty_store :: store where
  "empty_store = \<lparr>colls = [''kb'' \<mapsto> \<lparr>schema_fields = new_schema_fields, dim = 2, rows = []\<rparr>],
                  faults = [], calls = []\<rparr>"

text \<open>
  The rows that \<^verbatim>\<open>insert_to_milvus\<close> writes for the embedding of one page, given with
  its position.
\<close>

definition page_rows :: "string list \<Rightarrow> string \<Rightarrow> nat \<times> real list list \<Rightarrow> row list" where
  "page_rows image_ids fid p =
     map (\<lambda>vec. \<lparr>vector = vec, image_id = image_ids ! fst p, page_number = int (fst p),
                  file_id = fid, media_type = Some ''image'', timestamp_start = Some 0,
                  timestamp_end = Some 0, duration = Some 0, segment_id = Some []\<rparr>) (snd p)"

text \<open>
  The late-interaction similarity in the words of the specification: for every query
  vector the largest inner product with a vector of the group, summed over the query
  vectors.
\<close>

definition late_interaction_spec :: "real list list \<Rightarrow> real list list \<Rightarrow> real" where
  "late_interaction_spec data vecs = (\<Sum>q\<leftarrow>data. Max ((\<lambda>v. inner_prod q v) ` set vecs))"

text \<open>A group of 1001 rows: the last one is the only one that matches the query.\<close>

definition zero_row :: row where
  "zero_row =
     \<lparr>vector = [0], image_id = ''g'', page_number = 0, file_id = ''f'',
      media_type = Some ''image'', timestamp_start = Some 0, timestamp_end = Some 0,
      duration = Some 0, segment_id = Some []\<rparr>"

definition one_row :: row where
  "one_row =
     \<lparr>vector = [1], image_id = ''g'', page_number = 0, file_id = ''f'',
      media_type = Some ''image'', timestamp_start = Some 0, timestamp_end = Some 0,
      duration = Some 0, segment_id = Some []\<rparr>"

definition big_group :: collection where
  "big_group =
     \<lparr>schema_fields = new_schema_fields, dim = 1, rows = replicate 1000 zero_row @ [one_row]\<rparr>"

definition big_group_store :: store where
  "big_group_store = \<lparr>colls = [''kb'' \<mapsto> big_group], faults = [], calls = []\<rparr>"

text \<open>
  The scenario of the specification: group \<open>g1\<close> with the vectors \<open>[1,0]\<close>,
  \<open>[0,1]\<close>, \<open>[1,1]\<close> of file \<open>f1\<close>, group \<open>g2\<close> with the vector
  \<open>[1,0]\<close> of file \<open>f2\<close>.
\<close>

definition image_row :: "string \<Rightarrow> string \<Rightarrow> real list \<Rightarrow> row" where
  "image_row g f v =
     \<lparr>vector = v, image_id = g, page_number = 0, file_id = f,
      media_type = Some ''image'', timestamp_start = Some 0, timestamp_end = Some 0,
      duration = Some 0, segment_id = Some []\<rparr>"

definition scenario_rows :: "row list" where
  "scenario_rows =
     [image_row ''g1'' ''f1'' [1, 0], image_row ''g1'' ''f1'' [0, 1],
      image_row ''g1'' ''f1'' [1, 1], image_row ''g2'' ''f2'' [1, 0]]"

definition scenario_store :: store where
  "scenario_store =
     \<lparr>colls = [''kb'' \<mapsto> \<lparr>schema_fields = new_schema_fields, dim = 2, rows = scenario_rows\<rparr>],
      faults = [], calls = []\<rparr>"

text \<open>A returned entry of an image group, with the default media fields.\<close>

definition entry :: "real \<Rightarrow> string \<Rightarrow> string \<Rightarrow> scored" where
  "entry sc g f = \<lparr>score = sc, r_image_id = g, r_file_id = Some f, r_page_number = Some 0,
      r_media_type = ''image'', r_timestamp_start = 0, r_timestamp_end = 0, r_duration = 0,
      r_segment_id = []\<rparr>"

text \<open>The entry returned for the audio segment of the current collection.\<close>

definition audio_entry :: scored where
  "audio_entry = \<lparr>score = 1, r_image_id = ''g2'', r_file_id = Some ''f2'', r_page_number = Some 0,
      r_media_type = ''audio'', r_timestamp_start = 10, r_timestamp_end = 20, r_duration = 10,
      r_segment_id = ''g2''\<rparr>"

section \<open>Frame lemmas: what the client calls leave unchanged\<close>

lemma tick_colls: "tick opn s = (b, s1) \<Longrightarrow> colls s1 = colls s"
  by (auto simp: tick_def split: list.splits)

lemma read_onlyD: "read_only m \<Longrightarrow> m s = (r, s1) \<Longrightarrow> colls s1 = colls s"
  by (auto simp: read_only_def)

lemma read_only_returnE [intro!, simp]: "read_only (returnE x)"
  by (simp add: read_only_def returnE_def)

lemma read_only_raiseE [intro!, simp]: "read_only (raiseE e)"
  by (simp add: read_only_def raiseE_def)

lemma read_only_bindE [intro!]:
  assumes "read_only m" and "\<And>x. read_only (f x)"
  shows "read_only (bindE m f)"
  unfolding read_only_def
proof (intro allI impI)
  fix s r s2 assume b: "bindE m f s = (r, s2)"
  show "colls s2 = colls s"
  proof (cases "m s")
    case (Pair a s1)
    have 1: "colls s1 = colls s" by (rule read_onlyD[OF assms(1) Pair])
    show ?thesis
    proof (cases a)
      case (Inl e)
      with b Pair 1 show ?thesis by (simp add: bindE_def)
    next
      case (Inr x)
      with b Pair have "f x s1 = (r, s2)" by (simp add: bindE_def)
      from read_onlyD[OF assms(2) this] 1 show ?thesis by simp
    qed
  qed
qed

lemma read_only_client_call:
  assumes "\<And>s r s1. body s = (r, s1) \<Longrightarrow> colls s1 = colls s"
  shows "read_only (client_call opn body)"
  unfolding read_only_def client_call_def
  by (auto split: prod.splits bool.splits dest!: tick_colls assms)

lemma read_only_has_collection [intro!, simp]: "read_only (client_has_collection name)"
  unfolding client_has_collection_def by (rule read_only_client_call) auto

lemma read_only_describe [intro!, simp]: "read_only (client_describe_collection name)"
  unfolding client_describe_collection_def
  by (rule read_only_client_call) (auto split: option.splits)

lemma read_only_query [intro!, simp]: "read_only (client_query name flt ofs limit offset)"
  unfolding client_query_def
  by (rule read_only_client_call) (auto split: option.splits list.splits)

lemma read_only_search [intro!, simp]: "read_only (client_search name data limit ofs flt)"
  unfolding client_search_def
  by (rule read_only_client_call) (auto split: option.splits list.splits)

lemma read_only_stats [intro!, simp]: "read_only (client_get_collection_stats name)"
  unfolding client_get_collection_stats_def
  by (rule read_only_client_call) (auto split: option.splits)

lemma read_only_index_op [intro!, simp]: "read_only (client_index_op opn name)"
  unfolding client_index_op_def
  by (rule read_only_client_call) (auto split: option.splits)

lemma read_only_check_schema_try [intro!, simp]: "read_only (check_schema_try name)"
  unfolding check_schema_try_def by (auto simp: Let_def)

lemma check_schema_try_colls:
  "check_schema_try name s = (r, s1) \<Longrightarrow> colls s1 = colls s"
  using read_only_check_schema_try by (rule read_onlyD)

section \<open>Healthy stores\<close>

lemma tick_healthy: "healthy s \<Longrightarrow> tick opn s = (False, advance opn s)"
  by (cases s) (auto simp: healthy_def tick_def advance_def split: list.splits)

lemma healthy_advance [simp]: "healthy s \<Longrightarrow> healthy (advance opn s)"
  by (cases "faults s") (auto simp: healthy_def advance_def)

lemma colls_advance [simp]: "colls (advance opn s) = colls s"
  by (simp add: advance_def)

lemma client_call_healthy: "healthy s \<Longrightarrow> client_call opn body s = body (advance opn s)"
  by (simp add: client_call_def tick_healthy)

lemma check_compatible:
  assumes c: "colls s name = Some c" and sub: "set required_new_fields \<subseteq> set (schema_fields c)"
    and chk: "check_schema_compatibility name s = (cmp, s1)"
  shows "\<not> c_needs_migration cmp \<and> colls s1 = colls s"
proof (cases "check_schema_try name s")
  case (Pair a s')
  show ?thesis
  proof (cases a)
    case (Inl e)
    with Pair chk check_schema_try_colls[OF Pair] show ?thesis
      by (auto simp: check_schema_compatibility_def)
  next
    case (Inr x)
    from sub have nomiss: "filter (\<lambda>field. field \<notin> set (schema_fields c)) required_new_fields = []"
      by (auto simp: filter_empty_conv)
    have "\<not> c_needs_migration x"
      using Pair[unfolded Inr check_schema_try_def] c nomiss
      by (auto simp: bindE_def returnE_def client_has_collection_def client_describe_collection_def
            client_call_def tick_def Let_def split: prod.splits sum.splits if_splits list.splits bool.splits option.splits)
    with Pair Inr chk check_schema_try_colls[OF Pair] show ?thesis
      by (auto simp: check_schema_compatibility_def)
  qed
qed

lemma check_compatible_healthy:
  assumes c: "colls s name = Some c" and sub: "set required_new_fields \<subseteq> set (schema_fields c)"
    and h: "healthy s"
  shows "check_schema_compatibility name s =
     (\<lparr>c_exists = True, c_compatible = True, c_needs_migration = False,
                          c_missing_fields = None, c_error = None,
                          c_message = Msg_compatible\<rparr>, advance DescribeCollection (advance HasCollection s))"
proof -
  from sub have nomiss: "filter (\<lambda>field. field \<notin> set (schema_fields c)) required_new_fields = []"
    by (auto simp: filter_empty_conv)
  show ?thesis using c h nomiss
    by (simp add: check_schema_compatibility_def check_schema_try_def bindE_def returnE_def
        client_has_collection_def client_describe_collection_def client_call_healthy)
qed

lemma healthy_colls_update [simp]: "healthy (s\<lparr>colls := x\<rparr>) = healthy s"
  by (simp add: healthy_def)

lemma advance_colls_update [simp]:
  "advance opn (s\<lparr>colls := x\<rparr>) = (advance opn s)\<lparr>colls := x\<rparr>"
  by (simp add: advance_def)

lemma calls_advance [simp]: "calls (advance opn s) = opn # calls s"
  by (simp add: advance_def)

lemma drop_collection_healthy:
  assumes "healthy s"
  shows "client_drop_collection name s
         = (Inr (), (advance DropCollection s)\<lparr>colls := (colls s)(name := None)\<rparr>)"
  using assms by (simp add: client_drop_collection_def client_call_healthy)

lemma create_index_healthy:
  assumes "healthy s" and "colls s name = Some c"
  shows "\<exists>s1. create_index name s = (Inr (), s1) \<and> healthy s1 \<and> colls s1 = colls s
              \<and> set (calls s) \<subseteq> set (calls s1)"
  using assms
  by (auto simp: create_index_def bindE_def client_index_op_def client_call_healthy)

lemma create_collection_healthy:
  assumes h: "healthy s"
  shows "\<exists>s1. create_collection name d False s = (Inr (), s1) \<and> healthy s1
              \<and> colls s1 = (colls s)(name \<mapsto> \<lparr>schema_fields = new_schema_fields, dim = d, rows = []\<rparr>)
              \<and> set (calls s) \<subseteq> set (calls s1)"
proof -
  let ?fresh = "\<lparr>schema_fields = new_schema_fields, dim = d, rows = []\<rparr>"
  define t where "t = (if colls s name \<noteq> None
      then (advance CreateCollection (advance DropCollection (advance HasCollection (advance HasCollection s))))
      else (advance CreateCollection (advance HasCollection (advance HasCollection s))))
       \<lparr>colls := (colls s)(name \<mapsto> ?fresh)\<rparr>"
  have ht: "healthy t" and ct: "colls t name = Some ?fresh" 
    and cc: "colls t = (colls s)(name \<mapsto> ?fresh)" and sub: "set (calls s) \<subseteq> set (calls t)"
    using h by (auto simp: t_def)
  from create_index_healthy[OF ht ct] obtain s1 where
    i: "create_index name t = (Inr (), s1)" and h1: "healthy s1" and c1: "colls s1 = colls t"
    and k1: "set (calls t) \<subseteq> set (calls s1)" by blast
  have "create_collection name d False s = (Inr (), s1)"
    using h i
    by (auto simp: create_collection_def bindE_def returnE_def client_has_collection_def
          client_drop_collection_def client_create_collection_def client_call_healthy t_def truthy_def)
  with h1 c1 cc sub k1 show ?thesis by auto
qed


lemma read_only_backup_loop [intro!, simp]: "read_only (backup_loop name all_data offset)"
  unfolding read_only_def
proof (intro allI impI)
  fix s r s1 assume "backup_loop name all_data offset s = (r, s1)"
  then show "colls s1 = colls s"
  proof (induction name all_data offset s rule: backup_loop.induct)
    case (1 collection_name all_data offset s)
    obtain q s' where q: "client_query collection_name AllRows [''*''] 1000 offset s = (q, s')"
      by (cases "client_query collection_name AllRows [''*''] 1000 offset s")
    have f: "colls s' = colls s" by (rule read_onlyD[OF read_only_query q])
    show ?case
    proof (cases q)
      case (Inl e)
      with q "1.prems" f show ?thesis by (simp add: backup_loop.simps)
    next
      case (Inr batch)
      show ?thesis
      proof (cases "batch = [] \<or> length batch < 1000")
        case True
        with q Inr "1.prems" f show ?thesis
          by (auto simp: backup_loop.simps split: if_splits)
      next
        case False
        with q Inr "1.prems"
        have "backup_loop collection_name (all_data @ batch) (offset + length batch) s' = (r, s1)"
          by (simp add: backup_loop.simps)
        from "1.IH"[OF q[symmetric] _ _ _ this] Inr False f show ?thesis by auto
      qed
    qed
  qed
qed

lemma create_safe_backup_colls:
  assumes "create_safe_backup name s = (b, s1)"
  shows "colls s1 = colls s"
proof (cases "backup_loop name [] 0 s")
  case (Pair a t)
  have "colls t = colls s" by (rule read_onlyD[OF read_only_backup_loop Pair])
  with assms Pair show ?thesis
    by (auto simp: create_safe_backup_def split: sum.splits)
qed

lemma check_needs_migration_exists:
  assumes "check_schema_compatibility name s = (cmp, s1)" and "c_needs_migration cmp"
  shows "c_exists cmp \<and> colls s1 = colls s"
proof (cases "check_schema_try name s")
  case (Pair a t)
  have f: "colls t = colls s" by (rule check_schema_try_colls[OF Pair])
  show ?thesis
  proof (cases a)
    case (Inl e)
    with Pair assms show ?thesis by (auto simp: check_schema_compatibility_def)
  next
    case (Inr x)
    with Pair assms have x: "x = cmp" and t: "t = s1" by (auto simp: check_schema_compatibility_def)
    from Pair[unfolded Inr x check_schema_try_def] assms(2) have "c_exists cmp"
      by (auto simp: bindE_def returnE_def Let_def split: prod.splits sum.splits if_splits)
    with f t show ?thesis by simp
  qed
qed

lemma validate_healthy:
  assumes h: "healthy s" and c: "colls s name = Some c"
  shows "validate_migration name expected s =
     ((case expected of
         None \<Rightarrow> \<lparr>v_success = True, v_record_count = Some (int (length (rows c))), v_error = None,
                   v_message = Msg_validation_passed (int (length (rows c)))\<rparr>
       | Some e \<Rightarrow>
           if int (length (rows c)) \<noteq> e
           then \<lparr>v_success = False, v_record_count = Some (int (length (rows c))), v_error = None,
                 v_message = Msg_count_mismatch e (int (length (rows c)))\<rparr>
           else \<lparr>v_success = True, v_record_count = Some (int (length (rows c))), v_error = None,
                 v_message = Msg_validation_passed (int (length (rows c)))\<rparr>),
      advance GetCollectionStats (advance HasCollection s))"
  using h c
  by (simp add: validate_migration_def validate_try_def bindE_def returnE_def Let_def
        client_has_collection_def client_get_collection_stats_def client_call_healthy
      split: option.splits)

section \<open>Insertion\<close>

lemma insert_rows_map:
  "insert_rows data =
     map (\<lambda>vec. \<lparr>vector = vec, image_id = d_image_id data, page_number = d_page_number data,
                  file_id = d_file_id data,
                  media_type = Some (get_default (d_media_type data) ''image''),
                  timestamp_start = Some (get_default (d_timestamp_start data) 0),
                  timestamp_end = Some (get_default (d_timestamp_end data) 0),
                  duration = Some (get_default (d_duration data) 0),
                  segment_id = Some (get_default (d_segment_id data) [])\<rparr>) (colqwen_vecs data)"
  unfolding insert_rows_def Let_def
  by (rule nth_equalityI) simp_all

lemma milvus_insert_healthy:
  assumes "healthy s" and "colls s name = Some c"
  shows "milvus_insert data name s =
           (Inr (), (advance Insert s)\<lparr>colls := (colls s)(name \<mapsto> c\<lparr>rows := rows c @ insert_rows data\<rparr>)\<rparr>)"
  using assms by (simp add: milvus_insert_def client_insert_def client_call_healthy)

lemma forE_insert_pages:
  assumes "healthy s" and "colls s name = Some c" and "n + length embeddings \<le> length image_ids"
  shows "\<exists>s1. forE (enumerate n embeddings) (\<lambda>(i, emb).
       if i < length image_ids
       then milvus_insert
              \<lparr>colqwen_vecs = emb, d_image_id = image_ids ! i, d_page_number = int i,
               d_file_id = fid, d_media_type = None, d_timestamp_start = None,
               d_timestamp_end = None, d_duration = None, d_segment_id = None\<rparr>
              name
       else raiseE IndexError) s = (Inr (), s1) \<and> healthy s1
     \<and> colls s1 = (colls s)(name \<mapsto> c\<lparr>rows := rows c
           @ concat (map (page_rows image_ids fid) (enumerate n embeddings))\<rparr>)
     \<and> length (calls s1) = length (calls s) + length embeddings"
  using assms
proof (induction embeddings arbitrary: n s c)
  case Nil
  then show ?case by (cases c) (auto simp: fun_upd_idem)
next
  case (Cons emb embeddings)
  let ?d = "\<lparr>colqwen_vecs = emb, d_image_id = image_ids ! n, d_page_number = int n,
               d_file_id = fid, d_media_type = None, d_timestamp_start = None,
               d_timestamp_end = None, d_duration = None, d_segment_id = None\<rparr>"
  let ?c = "c\<lparr>rows := rows c @ insert_rows ?d\<rparr>"
  let ?s = "(advance Insert s)\<lparr>colls := (colls s)(name \<mapsto> ?c)\<rparr>"
  have ins: "milvus_insert ?d name s = (Inr (), ?s)"
    by (rule milvus_insert_healthy[OF Cons.prems(1,2)])
  have h: "healthy ?s" using Cons.prems(1) by simp
  have c: "colls ?s name = Some ?c" by simp
  from Cons.prems(3) have l: "Suc n + length embeddings \<le> length image_ids" and n: "n < length image_ids" by auto
  from Cons.IH[OF h c l] obtain s1 where
    1: "forE (enumerate (Suc n) embeddings) (\<lambda>(i, emb).
       if i < length image_ids
       then milvus_insert
              \<lparr>colqwen_vecs = emb, d_image_id = image_ids ! i, d_page_number = int i,
               d_file_id = fid, d_media_type = None, d_timestamp_start = None,
               d_timestamp_end = None, d_duration = None, d_segment_id = None\<rparr>
              name
       else raiseE IndexError) ?s = (Inr (), s1)" and 2: "healthy s1"
    and 3: "colls s1 = (colls ?s)(name \<mapsto> ?c\<lparr>rows := rows ?c
           @ concat (map (page_rows image_ids fid) (enumerate (Suc n) embeddings))\<rparr>)"
    and 4: "length (calls s1) = length (calls ?s) + length embeddings"
    by blast
  have pr: "insert_rows ?d = page_rows image_ids fid (n, emb)"
    by (simp add: insert_rows_map page_rows_def get_default_def)
  show ?case
    using 1 2 3 4 ins n pr by (auto simp: fun_upd_twist)
qed


section \<open>The score of one group\<close>

lemma row_max_map:
  "row_max (map f (v # rest)) = Inr (Max (f ` set (v # rest)))"
proof -
  have "Max (set (f v # map f rest)) = fold max (map f rest) (f v)"
    by (rule Max.set_eq_fold)
  then show ?thesis by simp
qed

lemma np_max_axis1_sims:
  "np_max_axis1 (map (\<lambda>q. map (inner_prod q) (v # rest)) data)
     = Inr (map (\<lambda>q. Max ((\<lambda>u. inner_prod q u) ` set (v # rest))) data)"
proof (induction data)
  case Nil
  show ?case by simp
next
  case (Cons q data)
  have "row_max (map (inner_prod q) (v # rest)) = Inr (Max (inner_prod q ` set (v # rest)))"
    by (rule row_max_map)
  with Cons show ?case by simp
qed

lemma late_interaction_eq_spec:
  assumes "vecs \<noteq> []" and "data \<noteq> []"
    and "\<forall>q \<in> set data. length q = d" and "\<forall>v \<in> set vecs. length v = d"
  shows "late_interaction data vecs = Inr (late_interaction_spec data vecs)"
proof -
  from assms(1) obtain v rest where vecs: "vecs = v # rest" by (cases vecs) auto
  from assms(4) vecs have st: "np_vstack vecs = Inr vecs"
    by (auto simp: np_vstack_def)
  from assms(2,3,4) vecs have dt: "np_dot_T data vecs = Inr (map (\<lambda>q. map (inner_prod q) vecs) data)"
    by (auto simp: np_dot_T_def)
  have mx: "np_max_axis1 (map (\<lambda>q. map (inner_prod q) vecs) data)
              = Inr (map (\<lambda>q. Max ((\<lambda>u. inner_prod q u) ` set vecs)) data)"
    unfolding vecs by (rule np_max_axis1_sims)
  show ?thesis
    by (simp add: late_interaction_def st dt mx late_interaction_spec_def)
qed

lemma client_query_result:
  assumes "client_query name flt ofs limit offset s = (Inr docs, s1)"
  shows "\<exists>c. colls s name = Some c
           \<and> docs = map (project ofs) (take limit (drop offset (filter (eval_filter flt) (rows c))))"
proof -
  obtain b s0 where t: "tick Query s = (b, s0)" by (cases "tick Query s")
  then have "colls s0 = colls s" by (rule tick_colls)
  with assms t show ?thesis
    by (auto simp: client_query_def client_call_def split: bool.splits option.splits list.splits)
qed

lemma vector_project [simp]: "vector (project ofs r) = vector r"
  and image_id_project [simp]: "image_id (project ofs r) = image_id r"
  and file_id_project [simp]: "file_id (project ofs r) = file_id r"
  and page_number_project [simp]: "page_number (project ofs r) = page_number r"
  by (simp_all add: project_def)

lemma rerank_dangling:
  assumes "client_query collection_name (StrIn ''image_id'' [g]) output_fields 1000 0 s
             = (Inr [], s1)"
  shows "rerank_single_doc g data collection_name output_fields use_old_schema s
           = (Inr (0, dangling_metadata g), s1)"
  using assms by (simp add: rerank_single_doc_def bindE_def returnE_def)

lemma rerank_scored:
  assumes "client_query collection_name (StrIn ''image_id'' [g]) output_fields 1000 0 s
             = (Inr (first_record # others), s1)"
    and "data \<noteq> []" and "\<forall>q \<in> set data. length q = d"
    and "\<forall>r \<in> set (first_record # others). length (vector r) = d"
  shows "rerank_single_doc g data collection_name output_fields use_old_schema s
           = (Inr (late_interaction_spec data (map vector (first_record # others)),
                   group_metadata g first_record use_old_schema), s1)"
proof -
  from assms(2-4)
  have "late_interaction data (map vector (first_record # others))
          = Inr (late_interaction_spec data (map vector (first_record # others)))"
    by (intro late_interaction_eq_spec[where d = d]) auto
  with assms(1) show ?thesis
    by (simp add: rerank_single_doc_def bindE_def returnE_def Let_def)
qed

section \<open>The pool and the ranking\<close>

lemma read_only_rerank [intro!, simp]:
  "read_only (rerank_single_doc g data collection_name output_fields use_old_schema)"
  unfolding rerank_single_doc_def
  by (intro read_only_bindE read_only_query) (auto split: list.splits sum.splits simp: Let_def)

lemma rerank_single_outcome:
  assumes r: "rerank_single_doc g data collection_name output_fields use_old_schema t = (Inr x, t')"
    and f: "colls t = colls s"
  shows "rerank_outcome s collection_name output_fields use_old_schema g x"
proof -
  obtain q t1 where q: "client_query collection_name (StrIn ''image_id'' [g]) output_fields 1000 0 t = (q, t1)"
    by (cases "client_query collection_name (StrIn ''image_id'' [g]) output_fields 1000 0 t")
  from r q obtain docs where docs: "q = Inr docs"
    by (cases q) (auto simp: rerank_single_doc_def bindE_def)
  from client_query_result[OF q[unfolded docs]] obtain c where c: "colls t collection_name = Some c"
    and d: "docs = map (project output_fields)
                     (take 1000 (drop 0 (filter (eval_filter (StrIn ''image_id'' [g])) (rows c))))"
    by blast
  show ?thesis
  proof (cases docs)
    case Nil
    with r q docs show ?thesis
      by (auto simp: rerank_single_doc_def bindE_def returnE_def rerank_outcome_def)
  next
    case (Cons first_record others)
    with r q docs have x: "snd x = group_metadata g first_record use_old_schema"
      by (auto simp: rerank_single_doc_def bindE_def returnE_def raiseE_def Let_def
               split: sum.splits)
    from Cons d have "first_record \<in> set (map (project output_fields)
                     (take 1000 (filter (eval_filter (StrIn ''image_id'' [g])) (rows c))))"
      by (metis drop0 list.set_intros(1))
    then obtain r0 where r0: "r0 \<in> set (take 1000 (filter (eval_filter (StrIn ''image_id'' [g])) (rows c)))"
      and fr: "first_record = project output_fields r0" by auto
    from r0 have "r0 \<in> set (filter (eval_filter (StrIn ''image_id'' [g])) (rows c))"
      by (rule in_set_takeD)
    then have "r0 \<in> set (rows c)" and "image_id r0 = g" by auto
    with x fr c f show ?thesis by (auto simp: rerank_outcome_def)
  qed
qed

lemma run_pool_outcomes:
  assumes "run_pool ids (\<lambda>g. rerank_single_doc g data collection_name output_fields use_old_schema) t
             = (outcomes, t')"
    and "gather outcomes = Inr scores" and "colls t = colls s"
  shows "list_all2 (rerank_outcome s collection_name output_fields use_old_schema) ids scores
       \<and> colls t' = colls s"
  using assms
proof (induction ids arbitrary: t t' outcomes scores)
  case Nil
  then show ?case by auto
next
  case (Cons g ids)
  obtain r t1 where r: "rerank_single_doc g data collection_name output_fields use_old_schema t = (r, t1)"
    by (cases "rerank_single_doc g data collection_name output_fields use_old_schema t")
  obtain rs t2 where rs: "run_pool ids (\<lambda>g. rerank_single_doc g data collection_name output_fields use_old_schema) t1
             = (rs, t2)"
    by (cases "run_pool ids (\<lambda>g. rerank_single_doc g data collection_name output_fields use_old_schema) t1")
  from Cons.prems(1) r rs have o: "outcomes = r # rs" and t': "t' = t2" by auto
  have f1: "colls t1 = colls s"
    using read_onlyD[OF read_only_rerank r] Cons.prems(3) by simp
  from Cons.prems(2) o obtain x xs where x: "r = Inr x" and g: "gather rs = Inr xs"
    and sc: "scores = x # xs"
    by (cases r; cases "gather rs") auto
  from Cons.IH[OF rs g f1] have ih: "list_all2 (rerank_outcome s collection_name output_fields use_old_schema) ids xs"
    and f2: "colls t2 = colls s" by auto
  from rerank_single_outcome[OF r[unfolded x] Cons.prems(3)]
  have "rerank_outcome s collection_name output_fields use_old_schema g x" .
  with ih sc f2 t' show ?case by simp
qed

lemma gather_map:
  "gather (map f xs) = Inr ys \<Longrightarrow> list_all2 (\<lambda>x y. f x = Inr y) xs ys"
proof (induction xs arbitrary: ys)
  case Nil
  then show ?case by simp
next
  case (Cons x xs)
  then show ?case
    by (cases "f x"; cases "gather (map f xs)") auto
qed

lemma process_outcomes:
  assumes "process_search_results completion results data collection_name topk output_fields
             use_old_schema s = (Inr out, s1)"
  shows "\<exists>scores.
           list_all2 (rerank_outcome s collection_name output_fields use_old_schema)
             (completion (image_ids_of results)) scores
         \<and> list_all2 (\<lambda>x e. result_entry x = Inr e)
             (slice_to topk (sort_key (\<lambda>x. - fst x) scores)) out
         \<and> colls s1 = colls s"
proof -
  obtain outcomes t where p: "run_pool (completion (image_ids_of results))
      (\<lambda>g. rerank_single_doc g data collection_name output_fields use_old_schema) s = (outcomes, t)"
    by (cases "run_pool (completion (image_ids_of results))
      (\<lambda>g. rerank_single_doc g data collection_name output_fields use_old_schema) s")
  from assms p obtain scores where g: "gather outcomes = Inr scores"
    and o: "gather (map result_entry (slice_to topk (sort_key (\<lambda>x. - fst x) scores))) = Inr out"
    and t: "t = s1"
    by (cases "gather outcomes") (auto simp: process_search_results_def Let_def)
  from run_pool_outcomes[OF p g refl] gather_map[OF o] t show ?thesis by blast
qed

lemma result_entry_Inr:
  assumes "result_entry (sc, md) = Inr e"
  shows "score e = sc" "r_image_id e = m_image_id md" "r_file_id e = m_file_id md"
    "r_page_number e = m_page_number md"
    "m_media_type md = Some (r_media_type e)" "m_timestamp_start md = Some (r_timestamp_start e)"
    "m_timestamp_end md = Some (r_timestamp_end e)" "m_duration md = Some (r_duration e)"
    "m_segment_id md = Some (r_segment_id e)"
  using assms by (auto simp: result_entry_def split: option.splits)

lemma rerank_outcome_image_id:
  "rerank_outcome s collection_name output_fields use_old_schema g x \<Longrightarrow> m_image_id (snd x) = g"
  by (auto simp: rerank_outcome_def dangling_metadata_def group_metadata_def)

text \<open>One group fetch per group: each rerank issues exactly one query.\<close>

lemma tick_calls: "tick opn s = (b, s1) \<Longrightarrow> calls s1 = opn # calls s"
  by (auto simp: tick_def split: list.splits)

lemma rerank_calls:
  assumes "rerank_single_doc g data collection_name output_fields use_old_schema t = (r, t')"
  shows "calls t' = Query # calls t"
proof -
  obtain b t0 where t: "tick Query t = (b, t0)" by (cases "tick Query t")
  then have c: "calls t0 = Query # calls t" by (rule tick_calls)
  from assms t have "t' = t0"
    by (auto simp: rerank_single_doc_def bindE_def returnE_def raiseE_def client_query_def
          client_call_def Let_def
        split: bool.splits option.splits list.splits sum.splits)
  with c show ?thesis by simp
qed

lemma run_pool_calls:
  assumes "run_pool ids (\<lambda>g. rerank_single_doc g data collection_name output_fields use_old_schema) t
             = (outcomes, t')"
  shows "calls t' = replicate (length ids) Query @ calls t"
  using assms
proof (induction ids arbitrary: t t' outcomes)
  case Nil
  then show ?case by simp
next
  case (Cons g ids)
  obtain r t1 where r: "rerank_single_doc g data collection_name output_fields use_old_schema t = (r, t1)"
    by (cases "rerank_single_doc g data collection_name output_fields use_old_schema t")
  obtain rs t2 where rs: "run_pool ids (\<lambda>g. rerank_single_doc g data collection_name output_fields use_old_schema) t1
             = (rs, t2)"
    by (cases "run_pool ids (\<lambda>g. rerank_single_doc g data collection_name output_fields use_old_schema) t1")
  from Cons.prems r rs have t': "t' = t2" by auto
  from Cons.IH[OF rs] rerank_calls[OF r] t' show ?case
    by (simp add: replicate_app_Cons_same)
qed

lemma process_calls:
  assumes "process_search_results completion results data collection_name topk output_fields
             use_old_schema s = (r, s1)"
  shows "calls s1 = replicate (length (completion (image_ids_of results))) Query @ calls s"
proof -
  obtain outcomes t where p: "run_pool (completion (image_ids_of results))
      (\<lambda>g. rerank_single_doc g data collection_name output_fields use_old_schema) s = (outcomes, t)"
    by (cases "run_pool (completion (image_ids_of results))
      (\<lambda>g. rerank_single_doc g data collection_name output_fields use_old_schema) s")
  from assms p have "s1 = t"
    by (auto simp: process_search_results_def Let_def split: sum.splits)
  with run_pool_calls[OF p] show ?thesis by simp
qed

lemma list_all2_map_eq:
  assumes "list_all2 P xs ys" and "\<And>x y. P x y \<Longrightarrow> f y = g x"
  shows "map f ys = map g xs"
  using assms by (induction rule: list_all2_induct) auto

lemma slice_to_nonneg: "0 \<le> k \<Longrightarrow> slice_to k xs = take (nat k) xs"
  by (simp add: slice_to_def)

lemma slice_to_take: "\<exists>n. slice_to k xs = take n xs"
  by (auto simp: slice_to_def)

lemma sorted_scores_desc:
  "sorted_wrt (\<lambda>x y. fst y \<le> fst x) (sort_key (\<lambda>x. - fst x) (scores :: (real \<times> 'a) list))"
proof -
  have "sorted (map (\<lambda>x. - fst x) (sort_key (\<lambda>x. - fst x) scores))" by (rule sorted_sort_key)
  then show ?thesis by (simp add: sorted_map)
qed

section \<open>The search path on a healthy store\<close>

lemma client_query_healthy:
  assumes "healthy s" and "colls s name = Some c" and "unknown_fields c (filter_fields flt @ ofs) = []"
  shows "client_query name flt ofs limit offset s
           = (Inr (map (project ofs) (take limit (drop offset (filter (eval_filter flt) (rows c))))),
              advance Query s)"
  using assms by (simp add: client_query_def client_call_healthy)

lemma client_search_healthy:
  assumes "healthy s" and "colls s name = Some c" and "unknown_fields c (filter_fields flt @ ofs) = []"
  shows "client_search name data limit ofs flt s
           = (Inr (map (\<lambda>q. map (project ofs)
                             (take limit
                                (sort_key (\<lambda>r. - inner_prod q (vector r))
                                   (filter (eval_filter flt) (rows c)))))
                        data), advance Search s)"
  using assms by (simp add: client_search_def client_call_healthy)

lemma client_search_hits:
  assumes "client_search name data limit ofs flt s = (Inr results, s1)"
  shows "\<exists>c. colls s name = Some c
           \<and> (\<forall>h \<in> set (concat results). \<exists>r \<in> set (rows c). eval_filter flt r \<and> h = project ofs r)"
proof -
  obtain b s0 where t: "tick Search s = (b, s0)" by (cases "tick Search s")
  then have "colls s0 = colls s" by (rule tick_colls)
  with assms t obtain c where c: "colls s name = Some c"
    and r: "results = map (\<lambda>q. map (project ofs)
                             (take limit
                                (sort_key (\<lambda>r. - inner_prod q (vector r))
                                   (filter (eval_filter flt) (rows c)))))
                        data"
    by (auto simp: client_search_def client_call_def split: bool.splits option.splits list.splits)
  have "\<exists>r \<in> set (rows c). eval_filter flt r \<and> h = project ofs r" if "h \<in> set (concat results)" for h
  proof -
    from that r obtain q where "h \<in> set (map (project ofs)
                             (take limit
                                (sort_key (\<lambda>r. - inner_prod q (vector r))
                                   (filter (eval_filter flt) (rows c)))))"
      by auto
    then obtain r0 where h: "h = project ofs r0"
      and "r0 \<in> set (take limit (sort_key (\<lambda>r. - inner_prod q (vector r))
                                   (filter (eval_filter flt) (rows c))))"
      by auto
    then have "r0 \<in> set (sort_key (\<lambda>r. - inner_prod q (vector r)) (filter (eval_filter flt) (rows c)))"
      by (auto dest: in_set_takeD)
    then have "r0 \<in> set (rows c) \<and> eval_filter flt r0" by simp
    with h show ?thesis by blast
  qed
  with c show ?thesis by blast
qed

lemma rerank_healthy:
  assumes h: "healthy t" and c: "colls t collection_name = Some c"
    and u: "unknown_fields c (''image_id'' # output_fields) = []"
    and g: "g \<in> image_id ` set (rows c)"
    and d: "data \<noteq> []" "\<forall>q \<in> set data. length q = d" "\<forall>r \<in> set (rows c). length (vector r) = d"
  shows "\<exists>sc fr. rerank_single_doc g data collection_name output_fields use_old_schema t
           = (Inr (sc, group_metadata g fr use_old_schema), advance Query t)"
proof -
  let ?docs = "map (project output_fields)
                 (take 1000 (drop 0 (filter (eval_filter (StrIn ''image_id'' [g])) (rows c))))"
  have q: "client_query collection_name (StrIn ''image_id'' [g]) output_fields 1000 0 t
             = (Inr ?docs, advance Query t)"
    using u by (intro client_query_healthy[OF h c]) simp
  from g have "filter (eval_filter (StrIn ''image_id'' [g])) (rows c) \<noteq> []"
    by (auto simp: filter_empty_conv)
  then have ne: "?docs \<noteq> []" by simp
  then obtain first_record others where docs: "?docs = first_record # others"
    by (cases ?docs) auto
  have dims: "\<forall>r \<in> set (first_record # others). length (vector r) = d"
  proof
    fix r assume "r \<in> set (first_record # others)"
    then have "r \<in> set ?docs" by (simp only: docs)
    then obtain r0 where "r = project output_fields r0"
      and "r0 \<in> set (take 1000 (filter (eval_filter (StrIn ''image_id'' [g])) (rows c)))"
      by auto
    moreover then have "r0 \<in> set (rows c)" by (auto dest: in_set_takeD)
    ultimately show "length (vector r) = d" using d(3) by simp
  qed
  from rerank_scored[OF q[unfolded docs] d(1,2) dims] show ?thesis by blast
qed

lemma run_pool_healthy:
  assumes h: "healthy t" and c: "colls t collection_name = Some c"
    and u: "unknown_fields c (''image_id'' # output_fields) = []"
    and g: "set ids \<subseteq> image_id ` set (rows c)"
    and d: "data \<noteq> []" "\<forall>q \<in> set data. length q = d" "\<forall>r \<in> set (rows c). length (vector r) = d"
  shows "\<exists>scores t'. run_pool ids
            (\<lambda>g. rerank_single_doc g data collection_name output_fields use_old_schema) t
              = (map Inr scores, t')
          \<and> healthy t' \<and> colls t' = colls t
          \<and> (\<forall>x \<in> set scores. \<exists>g fr. snd x = group_metadata g fr use_old_schema)"
  using h c g
proof (induction ids arbitrary: t)
  case Nil
  then show ?case by (intro exI[of _ "[]"] exI[of _ t]) simp
next
  case (Cons g ids)
  from Cons.prems(3) have g: "g \<in> image_id ` set (rows c)" and ids: "set ids \<subseteq> image_id ` set (rows c)"
    by auto
  from rerank_healthy[OF Cons.prems(1,2) u g d, of use_old_schema] obtain sc fr where
    r: "rerank_single_doc g data collection_name output_fields use_old_schema t
           = (Inr (sc, group_metadata g fr use_old_schema), advance Query t)" by blast
  have h1: "healthy (advance Query t)" using Cons.prems(1) by simp
  have c1: "colls (advance Query t) collection_name = Some c" using Cons.prems(2) by simp
  from Cons.IH[OF h1 c1 ids] obtain scores t' where
    p: "run_pool ids (\<lambda>g. rerank_single_doc g data collection_name output_fields use_old_schema)
          (advance Query t) = (map Inr scores, t')"
    and 1: "healthy t'" and 2: "colls t' = colls (advance Query t)"
    and 3: "\<forall>x \<in> set scores. \<exists>g fr. snd x = group_metadata g fr use_old_schema" by blast
  show ?case
    by (rule exI[of _ "(sc, group_metadata g fr use_old_schema) # scores"], rule exI[of _ t'])
       (use r p 1 2 3 in auto)
qed

lemma gather_Inr [simp]: "gather (map Inr xs) = Inr xs"
  by (induction xs) auto

lemma gather_total:
  "(\<forall>x \<in> set xs. \<exists>y. f x = Inr y) \<Longrightarrow> \<exists>ys. gather (map f xs) = Inr ys"
proof (induction xs)
  case Nil
  show ?case by simp
next
  case (Cons x xs)
  then obtain y ys where "f x = Inr y" "gather (map f xs) = Inr ys" by auto
  then show ?case by simp
qed

lemma result_entry_group_metadata:
  "result_entry (sc, group_metadata g fr use_old_schema) =
     Inr \<lparr>score = sc, r_image_id = g, r_file_id = Some (file_id fr),
          r_page_number = Some (page_number fr),
          r_media_type = (if use_old_schema then ''image'' else get_default (media_type fr) ''image''),
          r_timestamp_start = (if use_old_schema then 0 else get_default (timestamp_start fr) 0),
          r_timestamp_end = (if use_old_schema then 0 else get_default (timestamp_end fr) 0),
          r_duration = (if use_old_schema then 0 else get_default (duration fr) 0),
          r_segment_id = (if use_old_schema then [] else get_default (segment_id fr) [])\<rparr>"
  by (simp add: result_entry_def group_metadata_def)

lemma process_healthy:
  assumes h: "healthy t" and c: "colls t collection_name = Some c"
    and u: "unknown_fields c (''image_id'' # output_fields) = []"
    and g: "set (completion (image_ids_of results)) \<subseteq> image_id ` set (rows c)"
    and d: "data \<noteq> []" "\<forall>q \<in> set data. length q = d" "\<forall>r \<in> set (rows c). length (vector r) = d"
  shows "\<exists>out t'. process_search_results completion results data collection_name topk
                     output_fields use_old_schema t = (Inr out, t')"
proof -
  from run_pool_healthy[OF h c u g d, of use_old_schema] obtain scores t' where
    p: "run_pool (completion (image_ids_of results))
            (\<lambda>g. rerank_single_doc g data collection_name output_fields use_old_schema) t
              = (map Inr scores, t')"
    and m: "\<forall>x \<in> set scores. \<exists>g fr. snd x = group_metadata g fr use_old_schema" by blast
  obtain n where sl: "slice_to topk (sort_key (\<lambda>x. - fst x) scores)
                        = take n (sort_key (\<lambda>x. - fst x) scores)"
    using slice_to_take by blast
  have "\<forall>x \<in> set (slice_to topk (sort_key (\<lambda>x. - fst x) scores)). \<exists>y. result_entry x = Inr y"
  proof
    fix x assume "x \<in> set (slice_to topk (sort_key (\<lambda>x. - fst x) scores))"
    then have "x \<in> set scores" unfolding sl by (auto dest: in_set_takeD)
    with m obtain g fr where "snd x = group_metadata g fr use_old_schema" by blast
    then have "x = (fst x, group_metadata g fr use_old_schema)" by (simp add: prod_eq_iff)
    then show "\<exists>y. result_entry x = Inr y"
      using result_entry_group_metadata[of "fst x" g fr use_old_schema] by metis
  qed
  from gather_total[OF this] obtain out where
    "gather (map result_entry (slice_to topk (sort_key (\<lambda>x. - fst x) scores))) = Inr out" by blast
  with p show ?thesis by (simp add: process_search_results_def Let_def)
qed


lemma list_all2_in_right:
  assumes "list_all2 P xs ys" and "y \<in> set ys"
  shows "\<exists>x \<in> set xs. P x y"
  using assms by (induction rule: list_all2_induct) auto

lemma list_all2_in_left:
  assumes "list_all2 P xs ys" and "x \<in> set xs"
  shows "\<exists>y \<in> set ys. P x y"
  using assms by (induction rule: list_all2_induct) auto

lemma result_entry_dangling: "result_entry (sc, dangling_metadata g) = Inl (KeyError ''media_type'')"
  by (simp add: result_entry_def dangling_metadata_def)

text \<open>Every returned entry is built from the metadata of a row of its group.\<close>

lemma process_entries:
  assumes p: "process_search_results completion results data collection_name topk output_fields
                use_old_schema s = (Inr out, s1)"
    and e: "e \<in> set out"
  shows "\<exists>c r sc. colls s collection_name = Some c \<and> r \<in> set (rows c)
           \<and> image_id r \<in> set (completion (image_ids_of results))
           \<and> result_entry (sc, group_metadata (image_id r) (project output_fields r) use_old_schema)
               = Inr e"
proof -
  from process_outcomes[OF p] obtain scores where
    L1: "list_all2 (rerank_outcome s collection_name output_fields use_old_schema)
           (completion (image_ids_of results)) scores"
    and L2: "list_all2 (\<lambda>x e. result_entry x = Inr e)
               (slice_to topk (sort_key (\<lambda>x. - fst x) scores)) out"
    by blast
  from list_all2_in_right[OF L2 e] obtain x where
    x: "x \<in> set (slice_to topk (sort_key (\<lambda>x. - fst x) scores))" and re: "result_entry x = Inr e"
    by blast
  obtain n where "slice_to topk (sort_key (\<lambda>x. - fst x) scores)
                    = take n (sort_key (\<lambda>x. - fst x) scores)"
    using slice_to_take by blast
  with x have "x \<in> set scores" by (auto dest: in_set_takeD)
  from list_all2_in_right[OF L1 this] obtain g where
    g: "g \<in> set (completion (image_ids_of results))"
    and o: "rerank_outcome s collection_name output_fields use_old_schema g x" by blast
  have xe: "x = (fst x, snd x)" by simp
  from o re have "snd x \<noteq> dangling_metadata g"
    using result_entry_dangling[of "fst x" g] by (metis xe sum.distinct(1))
  with o obtain c r where "colls s collection_name = Some c" "r \<in> set (rows c)" "image_id r = g"
    "snd x = group_metadata g (project output_fields r) use_old_schema"
    by (auto simp: rerank_outcome_def)
  with g re xe show ?thesis by metis
qed

section \<open>The legacy path\<close>

lemma legacy_defaults:
  assumes p: "process_search_results completion results data collection_name topk output_fields
                True s = (Inr out, s1)"
    and e: "e \<in> set out"
  shows "r_media_type e = ''image'' \<and> r_timestamp_start e = 0 \<and> r_timestamp_end e = 0
       \<and> r_duration e = 0 \<and> r_segment_id e = []"
proof -
  from process_entries[OF p e] obtain r sc where
    "result_entry (sc, group_metadata (image_id r) (project output_fields r) True) = Inr e"
    by blast
  then show ?thesis by (auto simp: result_entry_group_metadata)
qed

lemma hits_image_ids:
  assumes s: "client_search name data limit ofs flt s = (Inr results, s1)"
    and c: "colls s name = Some c" and perm: "reorders completion"
  shows "set (completion (image_ids_of results)) \<subseteq> image_id ` set (rows c)"
proof -
  from perm have "mset (completion (image_ids_of results)) = mset (image_ids_of results)"
    by (simp add: reorders_def)
  then have "set (completion (image_ids_of results)) = set (image_ids_of results)"
    by (rule mset_eq_setD)
  also have "\<dots> = image_id ` set (concat results)" by (simp add: image_ids_of_def)
  also have "\<dots> \<subseteq> image_id ` set (rows c)"
  proof
    fix g assume "g \<in> image_id ` set (concat results)"
    then obtain h where h: "h \<in> set (concat results)" and g: "g = image_id h" by auto
    from client_search_hits[OF s] c h obtain r where "r \<in> set (rows c)" "h = project ofs r"
      by auto
    with g show "g \<in> image_id ` set (rows c)" by auto
  qed
  finally show ?thesis .
qed

lemma old_schema_total:
  assumes h: "healthy t" and c: "colls t collection_name = Some c"
    and old: "set old_output_fields \<subseteq> set (schema_fields c)"
    and d: "data \<noteq> []" "\<forall>q \<in> set data. length q = d" "\<forall>r \<in> set (rows c). length (vector r) = d"
    and perm: "reorders completion"
  shows "\<exists>out t'. search_with_old_schema completion collection_name data topk t = (Inr out, t')
           \<and> (\<forall>e \<in> set out. r_media_type e = ''image'' \<and> r_timestamp_start e = 0
                 \<and> r_timestamp_end e = 0 \<and> r_duration e = 0 \<and> r_segment_id e = [])"
proof -
  from old have u0: "unknown_fields c (filter_fields AllRows @ old_output_fields) = []"
    by (auto simp: unknown_fields_def filter_empty_conv)
  from old have u1: "unknown_fields c (''image_id'' # old_output_fields) = []"
    by (auto simp: unknown_fields_def filter_empty_conv old_output_fields_def)
  let ?results = "map (\<lambda>q. map (project old_output_fields)
                             (take 50
                                (sort_key (\<lambda>r. - inner_prod q (vector r))
                                   (filter (eval_filter AllRows) (rows c)))))
                        data"
  have s: "client_search collection_name data 50 old_output_fields AllRows t
             = (Inr ?results, advance Search t)"
    by (rule client_search_healthy[OF h c u0])
  have h1: "healthy (advance Search t)" using h by simp
  have c1: "colls (advance Search t) collection_name = Some c" using c by simp
  note ids = hits_image_ids[OF s c perm]
  from process_healthy[where completion = completion and results = ?results
         and topk = topk and use_old_schema = True, OF h1 c1 u1 ids d]
  obtain out t' where p: "process_search_results completion ?results data collection_name topk
                     old_output_fields True (advance Search t) = (Inr out, t')" by blast
  have "search_with_old_schema completion collection_name data topk t = (Inr out, t')"
    using s p by (simp add: search_with_old_schema_def bindE_def)
  moreover have "\<forall>e \<in> set out. r_media_type e = ''image'' \<and> r_timestamp_start e = 0
                 \<and> r_timestamp_end e = 0 \<and> r_duration e = 0 \<and> r_segment_id e = []"
    using legacy_defaults[OF p] by blast
  ultimately show ?thesis by blast
qed

lemma new_schema_fails_on_legacy:
  assumes h: "healthy s" and c: "colls s collection_name = Some c"
    and legacy: "''media_type'' \<notin> set (schema_fields c)"
  shows "\<exists>f. search_with_new_schema completion collection_name data topk media_type_filter
               time_range_filter s = (Inl (FieldNotFound f), advance Search s)"
proof -
  let ?flt = "case build_filter media_type_filter time_range_filter of
                 None \<Rightarrow> AllRows
               | Some filter_expr \<Rightarrow> filter_expr"
  have "''media_type'' \<in> set (unknown_fields c (filter_fields ?flt @ new_output_fields))"
    using legacy by (simp add: unknown_fields_def new_output_fields_def)
  then obtain f fs where "unknown_fields c (filter_fields ?flt @ new_output_fields) = f # fs"
    by (cases "unknown_fields c (filter_fields ?flt @ new_output_fields)") auto
  then have "client_search collection_name data 50 new_output_fields ?flt s
               = (Inl (FieldNotFound f), advance Search s)"
    using h c by (simp add: client_search_def client_call_healthy)
  then show ?thesis
    by (auto simp: search_with_new_schema_def bindE_def)
qed

section \<open>The filtered search\<close>

lemma project_new_output_fields: "project new_output_fields r = r"
  by (simp add: project_def new_output_fields_def)

lemma build_filter_both:
  "mt \<noteq> [] \<Longrightarrow> build_filter (Some mt) (Some [a, b])
     = Some (And (StrEq ''media_type'' mt)
               (And (NumGe ''timestamp_start'' a) (NumLe ''timestamp_end'' b)))"
  by (simp add: build_filter_def)

lemma new_schema_search_steps:
  assumes n: "search_with_new_schema completion collection_name data topk (Some mt)
                (Some [a, b]) s = (Inr out, s1)"
    and mt: "mt \<noteq> []"
  shows "\<exists>results t.
           client_search collection_name data 50 new_output_fields
             (And (StrEq ''media_type'' mt)
                (And (NumGe ''timestamp_start'' a) (NumLe ''timestamp_end'' b))) s
             = (Inr results, t)
         \<and> process_search_results completion results data collection_name topk
              new_output_fields False t = (Inr out, s1)"
proof -
  let ?flt = "And (StrEq ''media_type'' mt)
                (And (NumGe ''timestamp_start'' a) (NumLe ''timestamp_end'' b))"
  have bf: "build_filter (Some mt) (Some [a, b]) = Some ?flt" by (rule build_filter_both[OF mt])
  have b: "bindE (client_search collection_name data 50 new_output_fields ?flt)
          (\<lambda>results. process_search_results completion results data collection_name topk
                     new_output_fields False) s = (Inr out, s1)"
    using n unfolding search_with_new_schema_def bf by simp
  obtain q t where q: "client_search collection_name data 50 new_output_fields ?flt s = (q, t)"
    by (cases "client_search collection_name data 50 new_output_fields ?flt s")
  show ?thesis
  proof (cases q)
    case (Inl e)
    with b q show ?thesis by (simp add: bindE_def)
  next
    case (Inr results)
    with b q have "process_search_results completion results data collection_name topk
              new_output_fields False t = (Inr out, s1)" by (simp add: bindE_def)
    with q Inr show ?thesis by blast
  qed
qed

lemma filter_both_holds:
  assumes "eval_filter (And (StrEq ''media_type'' mt)
                (And (NumGe ''timestamp_start'' a) (NumLe ''timestamp_end'' b))) r"
  shows "media_type r = Some mt"
    and "\<exists>x. timestamp_start r = Some x \<and> a \<le> x"
    and "\<exists>y. timestamp_end r = Some y \<and> y \<le> b"
proof -
  from assms have 1: "eval_filter (StrEq ''media_type'' mt) r"
    and 2: "eval_filter (NumGe ''timestamp_start'' a) r"
    and 3: "eval_filter (NumLe ''timestamp_end'' b) r"
    by (simp_all only: eval_filter.simps)
  from 1 show "media_type r = Some mt" by simp
  from 2 show "\<exists>x. timestamp_start r = Some x \<and> a \<le> x"
    by (cases "timestamp_start r") simp_all
  from 3 show "\<exists>y. timestamp_end r = Some y \<and> y \<le> b"
    by (cases "timestamp_end r") simp_all
qed


lemma filtered_entry:
  assumes q: "client_search collection_name data 50 new_output_fields
             (And (StrEq ''media_type'' mt)
                (And (NumGe ''timestamp_start'' a) (NumLe ''timestamp_end'' b))) s
             = (Inr results, t)"
    and p: "process_search_results completion results data collection_name topk
              new_output_fields False t = (Inr out, s1)"
    and c: "colls s collection_name = Some c" and perm: "reorders completion"
    and e: "e \<in> set out"
  shows "\<exists>r r' sc. r \<in> set (rows c) \<and> r' \<in> set (rows c) \<and> image_id r' = image_id r
           \<and> result_entry (sc, group_metadata (image_id r) r False) = Inr e
           \<and> media_type r' = Some mt
           \<and> (\<exists>x. timestamp_start r' = Some x \<and> a \<le> x)
           \<and> (\<exists>y. timestamp_end r' = Some y \<and> y \<le> b)"
proof -
  let ?flt = "And (StrEq ''media_type'' mt)
                (And (NumGe ''timestamp_start'' a) (NumLe ''timestamp_end'' b))"
  have ct: "colls t = colls s" by (rule read_onlyD[OF read_only_search q])
  from process_entries[OF p e] obtain c' r sc where
    c': "colls t collection_name = Some c'" and r: "r \<in> set (rows c')"
    and g: "image_id r \<in> set (completion (image_ids_of results))"
    and re: "result_entry (sc, group_metadata (image_id r) (project new_output_fields r) False)
               = Inr e"
    by blast
  from c' ct c have cc: "c' = c" by simp
  from perm have "mset (completion (image_ids_of results)) = mset (image_ids_of results)"
    by (simp add: reorders_def)
  then have "set (completion (image_ids_of results)) = set (image_ids_of results)"
    by (rule mset_eq_setD)
  also have "\<dots> = image_id ` set (concat results)" by (simp add: image_ids_of_def)
  finally have "image_id r \<in> image_id ` set (concat results)" using g by simp
  then obtain h where hg: "image_id r = image_id h" and h: "h \<in> set (concat results)"
    by (rule imageE)
  from client_search_hits[OF q] obtain c2 where c2: "colls s collection_name = Some c2"
    and hits: "\<forall>h \<in> set (concat results). \<exists>r \<in> set (rows c2). eval_filter ?flt r
                 \<and> h = project new_output_fields r"
    by blast
  from c2 c have c2c: "c2 = c" by simp
  from hits h obtain r' where r': "r' \<in> set (rows c2)" and f: "eval_filter ?flt r'"
    and hr: "h = project new_output_fields r'" by blast
  from hg hr have same_id: "image_id r' = image_id r" by (simp add: project_new_output_fields)
  note fb = filter_both_holds[OF f]
  from re have re': "result_entry (sc, group_metadata (image_id r) r False) = Inr e"
    by (simp only: project_new_output_fields)
  from r cc r' c2c same_id re' fb show ?thesis by blast
qed


section \<open>Runs on the example stores\<close>

lemmas client_defs = client_has_collection_def client_describe_collection_def client_query_def
  client_search_def client_insert_def client_drop_collection_def client_create_collection_def
  client_index_op_def client_get_collection_stats_def client_call_def tick_def

lemmas monad_defs = bindE_def returnE_def raiseE_def Let_def

lemma legacy_check:
  "check_schema_compatibility ''kb'' (legacy_store [False, False, True]) =
     (\<lparr>c_exists = True, c_compatible = False, c_needs_migration = True,
       c_missing_fields = Some required_new_fields, c_error = None,
       c_message = Msg_missing_fields required_new_fields\<rparr>,
      \<lparr>colls = [''kb'' \<mapsto> legacy_collection], faults = [True],
       calls = [DescribeCollection, HasCollection]\<rparr>)"
  by (simp add: check_schema_compatibility_def check_schema_try_def monad_defs client_defs
        legacy_store_def legacy_collection_def required_new_fields_def)

lemma legacy_backup_fails:
  "create_safe_backup ''kb''
      \<lparr>colls = [''kb'' \<mapsto> legacy_collection], faults = [True],
       calls = [DescribeCollection, HasCollection]\<rparr> =
     (None, \<lparr>colls = [''kb'' \<mapsto> legacy_collection], faults = [],
       calls = [Query, DescribeCollection, HasCollection]\<rparr>)"
  by (simp add: create_safe_backup_def backup_loop.simps client_defs)

lemma legacy_steps:
  "migration_steps ''kb'' 2 \<lparr>c_exists = True, c_compatible = False, c_needs_migration = True,
       c_missing_fields = Some required_new_fields, c_error = None,
       c_message = Msg_missing_fields required_new_fields\<rparr> None
     \<lparr>colls = [''kb'' \<mapsto> legacy_collection], faults = [],
       calls = [Query, DescribeCollection, HasCollection]\<rparr>
   = (Inr None, \<lparr>colls = [''kb'' \<mapsto> \<lparr>schema_fields = new_schema_fields, dim = 2, rows = []\<rparr>],
        faults = [],
        calls = [LoadCollection, CreateIndex, DropIndex, ReleaseCollection, CreateCollection,
                 HasCollection, HasCollection, DropCollection, Query, DescribeCollection,
                 HasCollection]\<rparr>)"
  by (simp add: migration_steps_def create_collection_def create_index_def truthy_def monad_defs client_defs)

lemma legacy_migration_run:
  "safe_migrate_collection ''kb'' 2 True (legacy_store [False, False, True]) =
       (\<lparr>success = True, backup_created = False, data_migrated = False,
         records_processed = 0, errors = [], message = Some (Msg_migrated ''kb''),
         validation = None\<rparr>,
        \<lparr>colls = [''kb'' \<mapsto> \<lparr>schema_fields = new_schema_fields, dim = 2, rows = []\<rparr>],
         faults = [],
         calls = [LoadCollection, CreateIndex, DropIndex, ReleaseCollection, CreateCollection,
                  HasCollection, HasCollection, DropCollection, Query, DescribeCollection,
                  HasCollection]\<rparr>)"
  by (simp add: safe_migrate_collection_def legacy_check legacy_backup_fails legacy_steps Let_def)

lemma empty_store_insert:
  "insert_to_milvus ''kb'' [[[1, 0], [0, 1]]] [''g1''] ''f1'' empty_store =
     (Inr (),
      \<lparr>colls = [''kb'' \<mapsto> \<lparr>schema_fields = new_schema_fields, dim = 2,
          rows = [\<lparr>vector = [1, 0], image_id = ''g1'', page_number = 0, file_id = ''f1'',
                   media_type = Some ''image'', timestamp_start = Some 0,
                   timestamp_end = Some 0, duration = Some 0, segment_id = Some []\<rparr>,
                  \<lparr>vector = [0, 1], image_id = ''g1'', page_number = 0, file_id = ''f1'',
                   media_type = Some ''image'', timestamp_start = Some 0,
                   timestamp_end = Some 0, duration = Some 0, segment_id = Some []\<rparr>]\<rparr>],
       faults = [], calls = [Insert]\<rparr>)"
  by (simp add: insert_to_milvus_def enumerate_eq_zip milvus_insert_def insert_rows_map
        client_insert_def client_call_def tick_def empty_store_def get_default_def upt_rec)

lemma big_group_fetch:
  "client_query ''kb'' (StrIn ''image_id'' [''g'']) new_output_fields 1000 0 big_group_store
     = (Inr (zero_row # replicate 999 zero_row), big_group_store\<lparr>calls := [Query]\<rparr>)"
proof -
  have r: "replicate 1000 zero_row = zero_row # replicate 999 zero_row"
  proof -
    have "replicate (Suc 999) zero_row = zero_row # replicate 999 zero_row" by (rule replicate_Suc)
    then show ?thesis by simp
  qed
  have p: "project new_output_fields zero_row = zero_row"
    by (simp add: project_def new_output_fields_def zero_row_def)
  have f: "take 1000 (filter (eval_filter (StrIn ''image_id'' [''g''])) (rows big_group))
             = replicate 1000 zero_row"
    by (simp add: big_group_def filter_replicate zero_row_def one_row_def)
  have u: "unknown_fields big_group (''image_id'' # new_output_fields) = []"
    by (simp add: unknown_fields_def big_group_def new_output_fields_def new_schema_fields_def)
  have "client_query ''kb'' (StrIn ''image_id'' [''g'']) new_output_fields 1000 0 big_group_store
     = (Inr (replicate 1000 zero_row), big_group_store\<lparr>calls := [Query]\<rparr>)"
    by (simp add: client_query_def client_call_def tick_def big_group_store_def u f p)
  then show ?thesis by (simp only: r)
qed

lemma big_group_scores:
  "late_interaction_spec [[1]] (map vector (zero_row # replicate 999 zero_row)) = 0"
  "late_interaction_spec [[1]] (map vector (filter (\<lambda>r. image_id r = ''g'') (rows big_group))) = 1"
  by (simp_all add: late_interaction_spec_def inner_prod_def zero_row_def one_row_def
        big_group_def filter_replicate)

lemma scenario_fetch_g1:
  "client_query ''kb'' (StrIn ''image_id'' [''g1'']) new_output_fields 1000 0 scenario_store
     = (Inr [image_row ''g1'' ''f1'' [1, 0], image_row ''g1'' ''f1'' [0, 1],
             image_row ''g1'' ''f1'' [1, 1]], scenario_store\<lparr>calls := [Query]\<rparr>)"
  by (simp add: client_query_def client_call_def tick_def scenario_store_def scenario_rows_def
        unknown_fields_def new_output_fields_def new_schema_fields_def project_def image_row_def)

lemma scenario_fetch_none:
  "client_query ''kb'' (StrIn ''image_id'' [''zz'']) new_output_fields 1000 0 scenario_store
     = (Inr [], scenario_store\<lparr>calls := [Query]\<rparr>)"
  by (simp add: client_query_def client_call_def tick_def scenario_store_def scenario_rows_def
        unknown_fields_def new_output_fields_def new_schema_fields_def project_def image_row_def)

lemmas search_defs = search_def search_with_new_schema_def search_with_old_schema_def
  process_search_results_def image_ids_of_def rerank_single_doc_def late_interaction_def
  np_vstack_def np_dot_T_def inner_prod_def result_entry_def slice_to_def build_filter_def
  group_metadata_def dangling_metadata_def get_default_def unknown_fields_def project_def
  new_output_fields_def old_output_fields_def new_schema_fields_def

lemma scenario_search:
  "search (\<lambda>ids. ids) ''kb'' [[1, 0], [0, 1]] 2 None None scenario_store
     = (Inr [entry 2 ''g1'' ''f1'', entry 1 ''g2'' ''f2''],
        scenario_store\<lparr>calls := [Query, Query, Search]\<rparr>)"
  by (simp add: search_defs monad_defs client_defs scenario_store_def scenario_rows_def
        image_row_def entry_def)

lemma legacy_search:
  "search (\<lambda>ids. ids) ''kb'' [[1, 0]] 5 (Some ''audio'') (Some [10, 40]) (legacy_store [])
     = (Inr [entry 1 ''g1'' ''f1''], (legacy_store [])\<lparr>calls := [Query, Search, Search]\<rparr>)"
  by (simp add: search_defs monad_defs client_defs legacy_store_def legacy_collection_def
        legacy_row_def entry_def)

lemma current_search:
  "search_with_new_schema (\<lambda>ids. ids) ''kb'' [[0, 1]] 5 (Some ''audio'') (Some [10, 40])
      (current_store [])
     = (Inr [audio_entry], (current_store [])\<lparr>calls := [Query, Search]\<rparr>)"
  by (simp add: search_defs monad_defs client_defs current_store_def current_collection_def
        audio_row_def audio_entry_def)

section \<open>The claims\<close>

text \<open>
  Claim C10. If an exception is raised while the schema is checked (the body of the
  \<^verbatim>\<open>try\<close> of \<^verbatim>\<open>check_schema_compatibility\<close> raises, for instance because
  \<^verbatim>\<open>describe_collection\<close> fails), the check returns \<open>needs_migration = False\<close>,
  and \<^verbatim>\<open>safe_migrate_collection\<close> returns \<open>success = True\<close> without migrating
  anything: the collections are as before, and the error is only in the message.
\<close>

theorem check_error_reported_as_success:
  assumes "check_schema_try name s = (Inl e, s1)"
  shows "check_schema_compatibility name s =
           (\<lparr>c_exists = False, c_compatible = False, c_needs_migration = False,
             c_missing_fields = None, c_error = Some e, c_message = Msg_check_error e\<rparr>, s1)
       \<and> safe_migrate_collection name d backup s =
           (\<lparr>success = True, backup_created = False, data_migrated = False,
             records_processed = 0, errors = [], message = Some (Msg_check_error e),
             validation = None\<rparr>, s1)
       \<and> colls s1 = colls s"
  using assms check_schema_try_colls[OF assms]
  by (simp add: check_schema_compatibility_def safe_migrate_collection_def)

theorem check_error_reported_as_success_witness:
  "check_schema_try ''kb'' (legacy_store [False, True]) =
     (Inl (StoreError DescribeCollection),
      \<lparr>colls = [''kb'' \<mapsto> legacy_collection], faults = [], calls = [DescribeCollection, HasCollection]\<rparr>)
   \<and> safe_migrate_collection ''kb'' 128 True (legacy_store [False, True]) =
           (\<lparr>success = True, backup_created = False, data_migrated = False,
             records_processed = 0, errors = [], message = Some (Msg_check_error (StoreError DescribeCollection)),
             validation = None\<rparr>,
       \<lparr>colls = [''kb'' \<mapsto> legacy_collection], faults = [], calls = [DescribeCollection, HasCollection]\<rparr>)"
proof -
  have h: "check_schema_try ''kb'' (legacy_store [False, True]) =
     (Inl (StoreError DescribeCollection),
      \<lparr>colls = [''kb'' \<mapsto> legacy_collection], faults = [], calls = [DescribeCollection, HasCollection]\<rparr>)"
    by (simp add: check_schema_try_def bindE_def client_has_collection_def client_call_def tick_def legacy_store_def
     client_describe_collection_def)
  from check_error_reported_as_success[OF h, of 128 True] h show ?thesis by simp
qed

text \<open>
  Claim C8. Migrating a collection that already has every expected field is a no-op
  that reports success: nothing is backed up, dropped or restored, and the collections
  (hence the row count) are unchanged. A second run is a no-op again. When no client call
  fails, both runs report that the collection is compatible with the new schema.
\<close>

theorem compatible_collection_migration_noop:
  assumes c: "colls s name = Some c"
    and sub: "set required_new_fields \<subseteq> set (schema_fields c)"
    and m1: "safe_migrate_collection name d backup s = (r1, s1)"
    and m2: "safe_migrate_collection name d backup s1 = (r2, s2)"
  shows "success r1 \<and> \<not> backup_created r1 \<and> \<not> data_migrated r1 \<and> records_processed r1 = 0 \<and> errors r1 = []
       \<and> colls s1 = colls s
       \<and> success r2 \<and> \<not> backup_created r2 \<and> \<not> data_migrated r2 \<and> records_processed r2 = 0 \<and> errors r2 = []
       \<and> colls s2 = colls s
       \<and> (healthy s \<longrightarrow> message r1 = Some Msg_compatible \<and> message r2 = Some Msg_compatible)"
proof -
  obtain cmp1 t1 where k1: "check_schema_compatibility name s = (cmp1, t1)"
    by (cases "check_schema_compatibility name s")
  from check_compatible[OF c sub k1] have n1: "\<not> c_needs_migration cmp1" and f1: "colls t1 = colls s" by auto
  from m1 k1 n1 have r1: "r1 = \<lparr>success = True, backup_created = False, data_migrated = False,
             records_processed = 0, errors = [], message = Some (c_message cmp1), validation = None\<rparr>"
    and s1: "s1 = t1"
    by (auto simp: safe_migrate_collection_def)
  from c f1 s1 have c1: "colls s1 name = Some c" by simp
  obtain cmp2 t2 where k2: "check_schema_compatibility name s1 = (cmp2, t2)"
    by (cases "check_schema_compatibility name s1")
  from check_compatible[OF c1 sub k2] have n2: "\<not> c_needs_migration cmp2" and f2: "colls t2 = colls s1" by auto
  from m2 k2 n2 have r2: "r2 = \<lparr>success = True, backup_created = False, data_migrated = False,
             records_processed = 0, errors = [], message = Some (c_message cmp2), validation = None\<rparr>"
    and s2: "s2 = t2"
    by (auto simp: safe_migrate_collection_def)
  have msgs: "message r1 = Some Msg_compatible \<and> message r2 = Some Msg_compatible" if h: "healthy s"
  proof -
    from check_compatible_healthy[OF c sub h] k1 have a: "c_message cmp1 = Msg_compatible"
      and t1: "t1 = advance DescribeCollection (advance HasCollection s)" by auto
    from h t1 s1 have h1: "healthy s1" by simp
    from check_compatible_healthy[OF c1 sub h1] k2 have "c_message cmp2 = Msg_compatible" by auto
    with a r1 r2 show ?thesis by simp
  qed
  from r1 r2 s1 s2 f1 f2 msgs show ?thesis by simp
qed


theorem compatible_collection_migration_noop_witness:
  "colls (current_store []) ''kb'' = Some current_collection
   \<and> set required_new_fields \<subseteq> set (schema_fields current_collection)
   \<and> healthy (current_store [])
   \<and> success (fst (safe_migrate_collection ''kb'' 2 True (current_store [])))
   \<and> colls (snd (safe_migrate_collection ''kb'' 2 True (current_store [])))
       = colls (current_store [])
   \<and> message (fst (safe_migrate_collection ''kb'' 2 True
                      (snd (safe_migrate_collection ''kb'' 2 True (current_store [])))))
       = Some Msg_compatible
   \<and> colls (snd (safe_migrate_collection ''kb'' 2 True
                    (snd (safe_migrate_collection ''kb'' 2 True (current_store [])))))
       = colls (current_store [])"
proof -
  have c: "colls (current_store []) ''kb'' = Some current_collection"
    by (simp add: current_store_def)
  have sub: "set required_new_fields \<subseteq> set (schema_fields current_collection)"
    by (simp add: required_new_fields_def current_collection_def new_schema_fields_def)
  have h: "healthy (current_store [])"
    by (simp add: healthy_def current_store_def)
  obtain r1 s1 where m1: "safe_migrate_collection ''kb'' 2 True (current_store []) = (r1, s1)"
    by (cases "safe_migrate_collection ''kb'' 2 True (current_store [])")
  obtain r2 s2 where m2: "safe_migrate_collection ''kb'' 2 True s1 = (r2, s2)"
    by (cases "safe_migrate_collection ''kb'' 2 True s1")
  from compatible_collection_migration_noop[OF c sub m1 m2] c sub h m1 m2
  show ?thesis by simp
qed

text \<open>
  Claim C1 says that a backup that fails to read the rows aborts the migration before
  the old collection is dropped. The source does not abort: \<^verbatim>\<open>_create_safe_backup\<close>
  catches the exception and returns \<open>None\<close>, \<^verbatim>\<open>safe_migrate_collection\<close> logs
  that it proceeds without a backup, and the drop follows. On the legacy collection with one
  row, when the third client call (the query of the backup) fails, the migration reports
  success and the recreated collection is empty.
\<close>

theorem backup_failure_proceeds_to_drop:
  "colls (legacy_store [False, False, True]) ''kb'' = Some legacy_collection
   \<and> rows legacy_collection = [legacy_row]
   \<and> create_safe_backup ''kb''
        (snd (check_schema_compatibility ''kb'' (legacy_store [False, False, True])))
      = (None, \<lparr>colls = [''kb'' \<mapsto> legacy_collection], faults = [],
                calls = [Query, DescribeCollection, HasCollection]\<rparr>)
   \<and> safe_migrate_collection ''kb'' 2 True (legacy_store [False, False, True]) =
       (\<lparr>success = True, backup_created = False, data_migrated = False,
         records_processed = 0, errors = [], message = Some (Msg_migrated ''kb''),
         validation = None\<rparr>,
        \<lparr>colls = [''kb'' \<mapsto> \<lparr>schema_fields = new_schema_fields, dim = 2, rows = []\<rparr>],
         faults = [],
         calls = [LoadCollection, CreateIndex, DropIndex, ReleaseCollection, CreateCollection,
                  HasCollection, HasCollection, DropCollection, Query, DescribeCollection,
                  HasCollection]\<rparr>)"
  by (simp add: legacy_check legacy_backup_fails legacy_migration_run)
     (simp add: legacy_store_def legacy_collection_def)

text \<open>
  Claim C1, as the source has it. When the collection needs migration and the backup
  fails to read its rows, the failure is absorbed: \<open>backup_created\<close> is \<open>False\<close>
  and the migration goes on to drop the old collection and to recreate it with the new
  schema. If no later client call fails, the result reports success with nothing migrated,
  and the collection is left empty.
\<close>

theorem backup_failure_is_absorbed:
  assumes chk: "check_schema_compatibility name s = (cmp, s1)"
    and need: "c_needs_migration cmp"
    and bk: "create_safe_backup name s1 = (None, s2)"
    and h: "healthy s2"
  shows "\<exists>s3. safe_migrate_collection name d True s =
           (\<lparr>success = True, backup_created = False, data_migrated = False,
             records_processed = 0, errors = [], message = Some (Msg_migrated name),
             validation = None\<rparr>, s3)
        \<and> colls s3 = (colls s)(name \<mapsto> \<lparr>schema_fields = new_schema_fields, dim = d, rows = []\<rparr>)
        \<and> DropCollection \<in> set (calls s3)"
proof -
  from check_needs_migration_exists[OF chk need] have ex: "c_exists cmp" and f1: "colls s1 = colls s"
    by auto
  from create_safe_backup_colls[OF bk] have f2: "colls s2 = colls s1" .
  let ?t = "(advance DropCollection s2)\<lparr>colls := (colls s2)(name := None)\<rparr>"
  have ht: "healthy ?t" using h by simp
  from create_collection_healthy[OF ht, of name d] obtain s3 where
    cc: "create_collection name d False ?t = (Inr (), s3)"
    and c3: "colls s3 = (colls ?t)(name \<mapsto> \<lparr>schema_fields = new_schema_fields, dim = d, rows = []\<rparr>)"
    and k3: "set (calls ?t) \<subseteq> set (calls s3)" by blast
  have steps: "migration_steps name d cmp None s2 = (Inr None, s3)"
    using ex cc by (simp add: migration_steps_def bindE_def returnE_def drop_collection_healthy[OF h])
  have "safe_migrate_collection name d True s =
           (\<lparr>success = True, backup_created = False, data_migrated = False,
             records_processed = 0, errors = [], message = Some (Msg_migrated name),
             validation = None\<rparr>, s3)"
    using chk need ex bk steps by (simp add: safe_migrate_collection_def Let_def)
  moreover have "colls s3 = (colls s)(name \<mapsto> \<lparr>schema_fields = new_schema_fields, dim = d, rows = []\<rparr>)"
    using c3 f1 f2 by simp
  moreover have "DropCollection \<in> set (calls s3)" using k3 by auto
  ultimately show ?thesis by blast
qed


theorem backup_failure_is_absorbed_witness:
  "c_needs_migration (fst (check_schema_compatibility ''kb'' (legacy_store [False, False, True])))
   \<and> fst (create_safe_backup ''kb''
             (snd (check_schema_compatibility ''kb'' (legacy_store [False, False, True])))) = None
   \<and> healthy (snd (create_safe_backup ''kb''
             (snd (check_schema_compatibility ''kb'' (legacy_store [False, False, True])))))
   \<and> success (fst (safe_migrate_collection ''kb'' 2 True (legacy_store [False, False, True])))
   \<and> colls (snd (safe_migrate_collection ''kb'' 2 True (legacy_store [False, False, True]))) ''kb''
       = Some \<lparr>schema_fields = new_schema_fields, dim = 2, rows = []\<rparr>
   \<and> DropCollection
       \<in> set (calls (snd (safe_migrate_collection ''kb'' 2 True
                            (legacy_store [False, False, True]))))"
proof -
  have need: "c_needs_migration
                \<lparr>c_exists = True, c_compatible = False, c_needs_migration = True,
                 c_missing_fields = Some required_new_fields, c_error = None,
                 c_message = Msg_missing_fields required_new_fields\<rparr>"
    by simp
  have h: "healthy \<lparr>colls = [''kb'' \<mapsto> legacy_collection], faults = [],
                    calls = [Query, DescribeCollection, HasCollection]\<rparr>"
    by (simp add: healthy_def)
  from backup_failure_is_absorbed[OF legacy_check need legacy_backup_fails h, of 2]
  obtain s3 where
    "safe_migrate_collection ''kb'' 2 True (legacy_store [False, False, True]) =
       (\<lparr>success = True, backup_created = False, data_migrated = False,
         records_processed = 0, errors = [], message = Some (Msg_migrated ''kb''),
         validation = None\<rparr>, s3)"
    and "colls s3 = (colls (legacy_store [False, False, True]))
                      (''kb'' \<mapsto> \<lparr>schema_fields = new_schema_fields, dim = 2, rows = []\<rparr>)"
    and "DropCollection \<in> set (calls s3)"
    by blast
  then show ?thesis
    using h by (simp add: legacy_check legacy_backup_fails)
qed

text \<open>
  Claim C7 says that every completed migration is validated against the row count from
  before the migration, a mismatch being reported as a failure. \<^verbatim>\<open>perform_safe_migration\<close>
  passes no expected count to \<^verbatim>\<open>validate_migration\<close>, and no row count is taken
  before the migration, so nothing is compared: in the run where the backup fails, one
  row becomes none and both the migration and its validation report success.
\<close>

theorem validation_passes_after_lost_row:
  "colls (legacy_store [False, False, True]) ''kb'' = Some legacy_collection
   \<and> length (rows legacy_collection) = 1
   \<and> fst (perform_safe_migration ''kb'' 2 (legacy_store [False, False, True])) =
       \<lparr>success = True, backup_created = False, data_migrated = False,
        records_processed = 0, errors = [], message = Some (Msg_migrated ''kb''),
        validation = Some \<lparr>v_success = True, v_record_count = Some 0, v_error = None,
                           v_message = Msg_validation_passed 0\<rparr>\<rparr>"
  by (simp add: perform_safe_migration_def legacy_migration_run validate_migration_def
        validate_try_def monad_defs client_defs)
     (simp add: legacy_store_def legacy_collection_def)

text \<open>
  Claim C7, as the source has it. \<^verbatim>\<open>validate_migration\<close> compares the row count
  of the collection with an expected count only when one is given, and then reports
  success exactly when they are equal. Without one it reports success with the count it
  found. \<^verbatim>\<open>perform_safe_migration\<close> gives none: after a migration that reported
  success its validation passes with the count found, whatever the count was before.
  (Stated for a store on which the validation's own client calls do not fail.)
\<close>

theorem validation_compares_only_given_count:
  assumes h: "healthy s1" and c: "colls s1 name = Some c"
  shows "v_success (fst (validate_migration name (Some expected) s1))
           = (int (length (rows c)) = expected)
       \<and> fst (validate_migration name None s1)
           = \<lparr>v_success = True, v_record_count = Some (int (length (rows c))), v_error = None,
              v_message = Msg_validation_passed (int (length (rows c)))\<rparr>
       \<and> (safe_migrate_collection name d True s = (r, s1) \<and> success r \<longrightarrow>
            fst (perform_safe_migration name d s)
              = r\<lparr>validation :=
                    Some \<lparr>v_success = True, v_record_count = Some (int (length (rows c))),
                          v_error = None,
                          v_message = Msg_validation_passed (int (length (rows c)))\<rparr>\<rparr>)"
  by (simp add: validate_healthy[OF h c] perform_safe_migration_def)


theorem validation_compares_only_given_count_witness:
  "healthy (snd (safe_migrate_collection ''kb'' 2 True (current_store [])))
   \<and> colls (snd (safe_migrate_collection ''kb'' 2 True (current_store []))) ''kb''
       = Some current_collection
   \<and> success (fst (safe_migrate_collection ''kb'' 2 True (current_store [])))
   \<and> v_success (fst (validate_migration ''kb'' (Some 1)
                        (snd (safe_migrate_collection ''kb'' 2 True (current_store [])))))
   \<and> \<not> v_success (fst (validate_migration ''kb'' (Some 5)
                        (snd (safe_migrate_collection ''kb'' 2 True (current_store [])))))
   \<and> validation (fst (perform_safe_migration ''kb'' 2 (current_store [])))
       = Some \<lparr>v_success = True, v_record_count = Some 1, v_error = None,
               v_message = Msg_validation_passed 1\<rparr>"
proof -
  let ?r = "\<lparr>success = True, backup_created = False, data_migrated = False,
             records_processed = 0, errors = [], message = Some Msg_compatible,
             validation = None\<rparr>"
  let ?s1 = "\<lparr>colls = [''kb'' \<mapsto> current_collection], faults = [],
              calls = [DescribeCollection, HasCollection]\<rparr>"
  have run: "safe_migrate_collection ''kb'' 2 True (current_store []) = (?r, ?s1)"
    by (simp add: safe_migrate_collection_def check_schema_compatibility_def
          check_schema_try_def monad_defs client_defs current_store_def current_collection_def
          required_new_fields_def new_schema_fields_def)
  have h: "healthy ?s1" by (simp add: healthy_def)
  have c: "colls ?s1 ''kb'' = Some current_collection" by simp
  have n: "int (length (rows current_collection)) = 1" by (simp add: current_collection_def)
  from validation_compares_only_given_count[OF h c, of 1 2 "current_store []" ?r]
       validation_compares_only_given_count[OF h c, of 5 2 "current_store []" ?r]
  show ?thesis using run h n by simp
qed

text \<open>
  Claim C5 says that the record of the \<open>i\<close>-th vector of an insert has
  \<open>page_number = i\<close>. In the source every record of one call has the
  \<open>page_number\<close> that the call was given: \<^verbatim>\<open>insert_to_milvus\<close> passes the position
  of the page among the embeddings, not the position of the vector within the page. A page
  of two vectors at position 0 gives two records with \<open>page_number = 0\<close>.
\<close>

theorem insert_page_number_is_not_position:
  "insert_to_milvus ''kb'' [[[1, 0], [0, 1]]] [''g1''] ''f1'' empty_store =
     (Inr (),
      \<lparr>colls = [''kb'' \<mapsto> \<lparr>schema_fields = new_schema_fields, dim = 2,
          rows = [\<lparr>vector = [1, 0], image_id = ''g1'', page_number = 0, file_id = ''f1'',
                   media_type = Some ''image'', timestamp_start = Some 0,
                   timestamp_end = Some 0, duration = Some 0, segment_id = Some []\<rparr>,
                  \<lparr>vector = [0, 1], image_id = ''g1'', page_number = 0, file_id = ''f1'',
                   media_type = Some ''image'', timestamp_start = Some 0,
                   timestamp_end = Some 0, duration = Some 0, segment_id = Some []\<rparr>]\<rparr>],
       faults = [], calls = [Insert]\<rparr>)
   \<and> page_number \<lparr>vector = [0, 1], image_id = ''g1'', page_number = 0, file_id = ''f1'',
                   media_type = Some ''image'', timestamp_start = Some 0,
                   timestamp_end = Some 0, duration = Some 0, segment_id = Some []\<rparr> \<noteq> 1"
  by (simp add: empty_store_insert)

text \<open>
  Claim C5, as the source has it. An insert with \<open>n\<close> vectors issues exactly one
  bulk insert, of \<open>n\<close> records, the \<open>i\<close>-th carrying the \<open>i\<close>-th vector; every
  record carries the \<open>page_number\<close>, \<open>image_id\<close> and \<open>file_id\<close> of the call.
  \<^verbatim>\<open>insert_to_milvus\<close> issues one such insert per embedding, with the position of the
  embedding as \<open>page_number\<close>. (Stated for a store whose insert calls do not fail.)
\<close>

theorem insert_writes_one_row_per_vector:
  assumes "healthy s" and "colls s name = Some c"
  shows "(\<exists>s1. milvus_insert data name s = (Inr (), s1)
            \<and> calls s1 = Insert # calls s
            \<and> colls s1 = (colls s)(name \<mapsto> c\<lparr>rows := rows c @ insert_rows data\<rparr>))
       \<and> length (insert_rows data) = length (colqwen_vecs data)
       \<and> (\<forall>i < length (colqwen_vecs data).
             vector (insert_rows data ! i) = colqwen_vecs data ! i
           \<and> page_number (insert_rows data ! i) = d_page_number data
           \<and> image_id (insert_rows data ! i) = d_image_id data
           \<and> file_id (insert_rows data ! i) = d_file_id data)
       \<and> (length embeddings \<le> length image_ids \<longrightarrow>
            (\<exists>s2. insert_to_milvus name embeddings image_ids fid s = (Inr (), s2)
               \<and> length (calls s2) = length (calls s) + length embeddings
               \<and> colls s2 = (colls s)(name \<mapsto> c\<lparr>rows := rows c
                     @ concat (map (page_rows image_ids fid) (enumerate 0 embeddings))\<rparr>)))"
proof -
  have a: "\<exists>s1. milvus_insert data name s = (Inr (), s1)
            \<and> calls s1 = Insert # calls s
            \<and> colls s1 = (colls s)(name \<mapsto> c\<lparr>rows := rows c @ insert_rows data\<rparr>)"
    by (simp add: milvus_insert_healthy[OF assms])
  have b: "length (insert_rows data) = length (colqwen_vecs data)"
    by (simp add: insert_rows_map)
  have c: "\<forall>i < length (colqwen_vecs data).
             vector (insert_rows data ! i) = colqwen_vecs data ! i
           \<and> page_number (insert_rows data ! i) = d_page_number data
           \<and> image_id (insert_rows data ! i) = d_image_id data
           \<and> file_id (insert_rows data ! i) = d_file_id data"
    by (simp add: insert_rows_map)
  have d: "\<exists>s2. insert_to_milvus name embeddings image_ids fid s = (Inr (), s2)
               \<and> length (calls s2) = length (calls s) + length embeddings
               \<and> colls s2 = (colls s)(name \<mapsto> c\<lparr>rows := rows c
                     @ concat (map (page_rows image_ids fid) (enumerate 0 embeddings))\<rparr>)"
    if "length embeddings \<le> length image_ids"
  proof -
    from that have "0 + length embeddings \<le> length image_ids" by simp
    from forE_insert_pages[OF assms this, of fid] show ?thesis
      unfolding insert_to_milvus_def by blast
  qed
  from a b c d show ?thesis by blast
qed

theorem insert_writes_one_row_per_vector_witness:
  "healthy empty_store
   \<and> length [[[1, 0], [0, 1 :: real]]] \<le> length [''g1'']
   \<and> (\<exists>s2. insert_to_milvus ''kb'' [[[1, 0], [0, 1]]] [''g1''] ''f1'' empty_store = (Inr (), s2)
          \<and> length (calls s2) = 1
          \<and> map page_number (rows (the (colls s2 ''kb''))) = [0, 0]
          \<and> map vector (rows (the (colls s2 ''kb''))) = [[1, 0], [0, 1]])"
proof -
  have h: "healthy empty_store" by (simp add: healthy_def empty_store_def)
  have c: "colls empty_store ''kb'' = Some \<lparr>schema_fields = new_schema_fields, dim = 2, rows = []\<rparr>"
    by (simp add: empty_store_def)
  have l: "length [[[1, 0], [0, 1 :: real]]] \<le> length [''g1'']" by simp
  from insert_writes_one_row_per_vector[OF h c, of _ "[[[1, 0], [0, 1]]]" "[''g1'']" "''f1''"] l
  obtain s2 where "insert_to_milvus ''kb'' [[[1, 0], [0, 1]]] [''g1''] ''f1'' empty_store = (Inr (), s2)"
    and "length (calls s2) = length (calls empty_store) + length [[[1, 0], [0, 1 :: real]]]"
    and "colls s2 = (colls empty_store)(''kb'' \<mapsto> \<lparr>schema_fields = new_schema_fields, dim = 2, rows = []\<rparr>\<lparr>rows := rows \<lparr>schema_fields = new_schema_fields, dim = 2, rows = []\<rparr>
                     @ concat (map (page_rows [''g1''] ''f1'') (enumerate 0 [[[1, 0], [0, 1]]]))\<rparr>)"
    by blast
  then show ?thesis using h
    by (auto simp: empty_store_def page_rows_def)
qed

text \<open>
  Claim C2 says that the score of a group is the late-interaction similarity over every
  vector that belongs to the group. The source scores the rows that the fetch of the
  group returns, and that fetch is capped at 1000 rows. In a group of 1001 rows whose
  last row is the only one that matches the query, the fetch returns the first 1000 and
  the score is 0, where the similarity over the whole group is 1.
\<close>

theorem capped_fetch_misses_best_vector:
  "rerank_single_doc ''g'' [[1]] ''kb'' new_output_fields False big_group_store
     = (Inr (0, group_metadata ''g'' zero_row False), big_group_store\<lparr>calls := [Query]\<rparr>)
   \<and> colls big_group_store ''kb'' = Some big_group
   \<and> late_interaction_spec [[1]]
         (map vector (filter (\<lambda>r. image_id r = ''g'') (rows big_group))) = 1"
proof -
  have "rerank_single_doc ''g'' [[1]] ''kb'' new_output_fields False big_group_store
     = (Inr (late_interaction_spec [[1]] (map vector (zero_row # replicate 999 zero_row)),
             group_metadata ''g'' zero_row False), big_group_store\<lparr>calls := [Query]\<rparr>)"
    by (rule rerank_scored[OF big_group_fetch, where d = 1]) (auto simp: zero_row_def)
  then show ?thesis
    using big_group_scores by (simp add: big_group_store_def)
qed

text \<open>
  Claim C2, as the source has it. When the fetch of a group returns no row, the group
  gets score 0 (and the metadata of a dangling group). When it returns rows, and the
  query is a non-empty sequence of vectors of the dimension of the rows, the score is the
  sum over the query vectors of the largest inner product with a returned vector. The
  returned vectors are those of the first 1000 rows of the group. (Numbers are real
  numbers here; the rounding of floating-point arithmetic is not modelled.)
\<close>

theorem rerank_score_of_fetched_vectors:
  assumes q: "client_query collection_name (StrIn ''image_id'' [g]) output_fields 1000 0 s
                = (Inr docs, s1)"
  shows "(docs = [] \<longrightarrow>
            rerank_single_doc g data collection_name output_fields use_old_schema s
              = (Inr (0, dangling_metadata g), s1))
       \<and> (docs \<noteq> [] \<and> data \<noteq> [] \<and> (\<forall>q \<in> set data. length q = d)
            \<and> (\<forall>r \<in> set docs. length (vector r) = d) \<longrightarrow>
            rerank_single_doc g data collection_name output_fields use_old_schema s
              = (Inr (late_interaction_spec data (map vector docs),
                      group_metadata g (hd docs) use_old_schema), s1))
       \<and> (\<exists>c. colls s collection_name = Some c
             \<and> map vector docs
                 = map vector (take 1000 (filter (\<lambda>r. image_id r = g) (rows c))))"
proof (intro conjI impI)
  assume "docs = []"
  with q show "rerank_single_doc g data collection_name output_fields use_old_schema s
              = (Inr (0, dangling_metadata g), s1)"
    by (simp add: rerank_dangling)
next
  assume a: "docs \<noteq> [] \<and> data \<noteq> [] \<and> (\<forall>q \<in> set data. length q = d)
            \<and> (\<forall>r \<in> set docs. length (vector r) = d)"
  then obtain first_record others where docs: "docs = first_record # others" by (cases docs) auto
  from rerank_scored[OF q[unfolded docs], of data d use_old_schema] a docs
  show "rerank_single_doc g data collection_name output_fields use_old_schema s
              = (Inr (late_interaction_spec data (map vector docs),
                      group_metadata g (hd docs) use_old_schema), s1)"
    by simp
next
  from client_query_result[OF q] obtain c where c: "colls s collection_name = Some c"
    and d: "docs = map (project output_fields)
                     (take 1000 (drop 0 (filter (eval_filter (StrIn ''image_id'' [g])) (rows c))))"
    by blast
  have "filter (eval_filter (StrIn ''image_id'' [g])) (rows c) = filter (\<lambda>r. image_id r = g) (rows c)"
    by (rule filter_cong) auto
  with c d show "\<exists>c. colls s collection_name = Some c
             \<and> map vector docs
                 = map vector (take 1000 (filter (\<lambda>r. image_id r = g) (rows c)))"
    by (simp add: comp_def)
qed


theorem rerank_score_of_fetched_vectors_witness:
  "client_query ''kb'' (StrIn ''image_id'' [''g1'']) new_output_fields 1000 0 scenario_store
     = (Inr [image_row ''g1'' ''f1'' [1, 0], image_row ''g1'' ''f1'' [0, 1],
             image_row ''g1'' ''f1'' [1, 1]], scenario_store\<lparr>calls := [Query]\<rparr>)
   \<and> rerank_single_doc ''g1'' [[1, 0], [0, 1]] ''kb'' new_output_fields False scenario_store
     = (Inr (2, group_metadata ''g1'' (image_row ''g1'' ''f1'' [1, 0]) False),
        scenario_store\<lparr>calls := [Query]\<rparr>)
   \<and> client_query ''kb'' (StrIn ''image_id'' [''zz'']) new_output_fields 1000 0 scenario_store
     = (Inr [], scenario_store\<lparr>calls := [Query]\<rparr>)
   \<and> rerank_single_doc ''zz'' [[1, 0], [0, 1]] ''kb'' new_output_fields False scenario_store
     = (Inr (0, dangling_metadata ''zz''), scenario_store\<lparr>calls := [Query]\<rparr>)"
proof -
  have sc: "late_interaction_spec [[1, 0], [0, 1]]
              (map vector [image_row ''g1'' ''f1'' [1, 0], image_row ''g1'' ''f1'' [0, 1],
                           image_row ''g1'' ''f1'' [1, 1]]) = 2"
    by (simp add: late_interaction_spec_def inner_prod_def image_row_def)
  from rerank_score_of_fetched_vectors[OF scenario_fetch_g1,
         where data = "[[1, 0], [0, 1]]" and d = 2 and use_old_schema = False]
       rerank_score_of_fetched_vectors[OF scenario_fetch_none,
         where data = "[[1, 0], [0, 1]]" and d = 2 and use_old_schema = False]
  show ?thesis
    using sc scenario_fetch_g1 scenario_fetch_none by (simp add: image_row_def)
qed

text \<open>
  Claim C3. The list that a search returns has at most \<open>topK\<close> entries, is sorted by
  score in descending order, and holds every group at most once; the groups returned are
  groups of the coarse hits. Every distinct group of the coarse hits is scored once: the
  rerank issues one group fetch per distinct group, however many query vectors hit it.
  \<open>topK\<close> is a number of entries, so it is not negative (the caller of the search
  clamps it to 1..30). This holds for every order in which the pool completes.
\<close>

theorem search_results_ranked_and_deduplicated:
  assumes p: "process_search_results completion results data collection_name topk output_fields
                use_old_schema s = (Inr out, s1)"
    and k: "0 \<le> topk" and perm: "reorders completion"
  shows "int (length out) \<le> topk
       \<and> sorted_wrt (\<lambda>a b. score b \<le> score a) out
       \<and> distinct (map r_image_id out)
       \<and> set (map r_image_id out) \<subseteq> image_id ` set (concat results)
       \<and> calls s1 = replicate (card (image_id ` set (concat results))) Query @ calls s"
proof -
  let ?ids = "completion (image_ids_of results)"
  have "length ?ids = length (image_ids_of results)"
    using perm by (metis reorders_def size_mset)
  also have "\<dots> = card (image_id ` set (concat results))"
    by (simp add: image_ids_of_def length_remdups_card_conv)
  finally have n: "length ?ids = card (image_id ` set (concat results))" .
  have 5: "calls s1 = replicate (card (image_id ` set (concat results))) Query @ calls s"
    using process_calls[OF p] n by simp
  from process_outcomes[OF p] obtain scores where
    L1: "list_all2 (rerank_outcome s collection_name output_fields use_old_schema) ?ids scores"
    and L2: "list_all2 (\<lambda>x e. result_entry x = Inr e)
               (slice_to topk (sort_key (\<lambda>x. - fst x) scores)) out"
    by blast
  let ?sorted = "sort_key (\<lambda>x. - fst x) scores"
  let ?sl = "slice_to topk ?sorted"
  have sl: "?sl = take (nat topk) ?sorted" using k by (rule slice_to_nonneg)
  have len: "length out = length ?sl" using L2 by (simp add: list_all2_lengthD)
  have 1: "int (length out) \<le> topk" unfolding len sl using k by simp
  have sc: "map score out = map fst ?sl"
    by (rule list_all2_map_eq[OF L2]) (auto dest: result_entry_Inr(1) simp: prod_eq_iff)
  have "sorted_wrt (\<lambda>x y. fst y \<le> fst x) ?sl"
    unfolding sl by (intro sorted_wrt_take sorted_scores_desc)
  then have "sorted_wrt (\<lambda>a b. b \<le> a) (map fst ?sl)" by (simp add: sorted_wrt_map)
  then have 2: "sorted_wrt (\<lambda>a b. score b \<le> score a) out"
    unfolding sc[symmetric] by (simp add: sorted_wrt_map)
  have ids: "map (m_image_id \<circ> snd) scores = map (\<lambda>g. g) ?ids"
    by (rule list_all2_map_eq[OF L1]) (auto dest: rerank_outcome_image_id)
  from perm have ms: "mset ?ids = mset (image_ids_of results)" by (simp add: reorders_def)
  have "distinct (image_ids_of results)" by (simp add: image_ids_of_def)
  with ms have d: "distinct ?ids" by (metis mset_eq_imp_distinct_iff)
  have "mset (map (m_image_id \<circ> snd) ?sorted) = mset (map (m_image_id \<circ> snd) scores)"
    by simp
  with d ids have ds: "distinct (map (m_image_id \<circ> snd) ?sorted)"
    by (metis mset_eq_imp_distinct_iff list.map_ident)
  have im: "map r_image_id out = map (m_image_id \<circ> snd) ?sl"
    by (rule list_all2_map_eq[OF L2]) (auto dest: result_entry_Inr(2) simp: prod_eq_iff)
  have 3: "distinct (map r_image_id out)"
    unfolding im sl using ds by (simp add: take_map[symmetric] del: take_map)
  have "set ?sl \<subseteq> set ?sorted" unfolding sl by (rule set_take_subset)
  then have "set (map (m_image_id \<circ> snd) ?sl) \<subseteq> set (map (m_image_id \<circ> snd) ?sorted)"
    unfolding set_map by (rule image_mono)
  also have "\<dots> = set (map (m_image_id \<circ> snd) scores)" by simp
  also have "\<dots> = set ?ids" using ids by simp
  also have "\<dots> = set (image_ids_of results)" using ms by (rule mset_eq_setD)
  also have "\<dots> = image_id ` set (concat results)" by (simp add: image_ids_of_def)
  finally have 4: "set (map r_image_id out) \<subseteq> image_id ` set (concat results)"
    unfolding im .
  from 1 2 3 4 5 show ?thesis by blast
qed

theorem search_results_ranked_and_deduplicated_witness:
  "process_search_results rev
      [[image_row ''g1'' ''f1'' [1, 0], image_row ''g2'' ''f2'' [1, 0]],
       [image_row ''g1'' ''f1'' [0, 1]]]
      [[1, 0], [0, 1]] ''kb'' 1 new_output_fields False scenario_store
     = (Inr [entry 2 ''g1'' ''f1''], scenario_store\<lparr>calls := [Query, Query]\<rparr>)
   \<and> (0 :: int) \<le> 1 \<and> reorders rev
   \<and> int (length [entry 2 ''g1'' ''f1'']) \<le> 1
   \<and> distinct (map r_image_id [entry 2 ''g1'' ''f1''])
   \<and> calls (scenario_store\<lparr>calls := [Query, Query]\<rparr>)
       = replicate
           (card (image_id ` set (concat
              [[image_row ''g1'' ''f1'' [1, 0], image_row ''g2'' ''f2'' [1, 0]],
               [image_row ''g1'' ''f1'' [0, 1]]])))
           Query @ calls scenario_store"
proof -
  have run: "process_search_results rev
      [[image_row ''g1'' ''f1'' [1, 0], image_row ''g2'' ''f2'' [1, 0]],
       [image_row ''g1'' ''f1'' [0, 1]]]
      [[1, 0], [0, 1]] ''kb'' 1 new_output_fields False scenario_store
     = (Inr [entry 2 ''g1'' ''f1''], scenario_store\<lparr>calls := [Query, Query]\<rparr>)"
    by (simp add: search_defs monad_defs client_defs scenario_store_def scenario_rows_def
          image_row_def entry_def)
  have k: "(0 :: int) \<le> 1" by simp
  have r: "reorders rev" by (simp add: reorders_def)
  from search_results_ranked_and_deduplicated[OF run k r] run k r show ?thesis by simp
qed

text \<open>
  Claim C6. Rows written before the media fields existed are read back through the
  search with the documented defaults (\<open>media_type = "image"\<close>, the two timestamps and
  the duration \<open>0.0\<close>, \<open>segment_id = ""\<close>) and the read does not fail. On a collection
  without the \<open>media_type\<close> field the search with the new field list is refused by the
  store, the search falls back to the legacy field list, and on a store whose calls do not
  fail it returns, every entry carrying the defaults. Every list returned by the legacy
  path carries the defaults, and the reader of the new path fills the defaults in for a
  fetched row that lacks the media fields.
\<close>

theorem legacy_rows_read_back_with_defaults:
  assumes h: "healthy s" and c: "colls s collection_name = Some c"
    and legacy: "''media_type'' \<notin> set (schema_fields c)"
    and old: "set old_output_fields \<subseteq> set (schema_fields c)"
    and d: "data \<noteq> []" "\<forall>q \<in> set data. length q = d" "\<forall>r \<in> set (rows c). length (vector r) = d"
    and perm: "reorders completion"
  shows "(\<exists>out s1. search completion collection_name data topk media_type_filter
                     time_range_filter s = (Inr out, s1)
            \<and> (\<forall>e \<in> set out. r_media_type e = ''image'' \<and> r_timestamp_start e = 0
                  \<and> r_timestamp_end e = 0 \<and> r_duration e = 0 \<and> r_segment_id e = []))
       \<and> (\<forall>results k ofs t out t1.
             process_search_results completion results data collection_name k ofs True t
               = (Inr out, t1) \<longrightarrow>
             (\<forall>e \<in> set out. r_media_type e = ''image'' \<and> r_timestamp_start e = 0
                  \<and> r_timestamp_end e = 0 \<and> r_duration e = 0 \<and> r_segment_id e = []))
       \<and> (\<forall>sc g (fr :: row). media_type fr = None \<and> timestamp_start fr = None \<and> timestamp_end fr = None
                \<and> duration fr = None \<and> segment_id fr = None \<longrightarrow>
             result_entry (sc, group_metadata g fr False)
               = Inr \<lparr>score = sc, r_image_id = g, r_file_id = Some (file_id fr),
                      r_page_number = Some (page_number fr), r_media_type = ''image'',
                      r_timestamp_start = 0, r_timestamp_end = 0, r_duration = 0,
                      r_segment_id = []\<rparr>)"
proof (intro conjI allI impI)
  from new_schema_fails_on_legacy[OF h c legacy] obtain f where
    n: "search_with_new_schema completion collection_name data topk media_type_filter
               time_range_filter s = (Inl (FieldNotFound f), advance Search s)" by blast
  have h1: "healthy (advance Search s)" using h by simp
  have c1: "colls (advance Search s) collection_name = Some c" using c by simp
  from old_schema_total[OF h1 c1 old d perm, of topk] n
  show "\<exists>out s1. search completion collection_name data topk media_type_filter
                     time_range_filter s = (Inr out, s1)
            \<and> (\<forall>e \<in> set out. r_media_type e = ''image'' \<and> r_timestamp_start e = 0
                  \<and> r_timestamp_end e = 0 \<and> r_duration e = 0 \<and> r_segment_id e = [])"
    by (simp add: search_def)
next
  fix results k ofs t out t1
  assume "process_search_results completion results data collection_name k ofs True t
               = (Inr out, t1)"
  from legacy_defaults[OF this]
  show "\<forall>e \<in> set out. r_media_type e = ''image'' \<and> r_timestamp_start e = 0
                  \<and> r_timestamp_end e = 0 \<and> r_duration e = 0 \<and> r_segment_id e = []"
    by blast
next
  fix sc g and fr :: row
  assume "media_type fr = None \<and> timestamp_start fr = None \<and> timestamp_end fr = None
                \<and> duration fr = None \<and> segment_id fr = None"
  then show "result_entry (sc, group_metadata g fr False)
               = Inr \<lparr>score = sc, r_image_id = g, r_file_id = Some (file_id fr),
                      r_page_number = Some (page_number fr), r_media_type = ''image'',
                      r_timestamp_start = 0, r_timestamp_end = 0, r_duration = 0,
                      r_segment_id = []\<rparr>"
    by (simp add: result_entry_group_metadata get_default_def)
qed

theorem legacy_rows_read_back_with_defaults_witness:
  "healthy (legacy_store []) \<and> colls (legacy_store []) ''kb'' = Some legacy_collection
   \<and> ''media_type'' \<notin> set (schema_fields legacy_collection)
   \<and> set old_output_fields \<subseteq> set (schema_fields legacy_collection)
   \<and> reorders (\<lambda>ids. ids)
   \<and> search (\<lambda>ids. ids) ''kb'' [[1, 0]] 5 (Some ''audio'') (Some [10, 40]) (legacy_store [])
     = (Inr [entry 1 ''g1'' ''f1''], (legacy_store [])\<lparr>calls := [Query, Search, Search]\<rparr>)
   \<and> r_media_type (entry 1 ''g1'' ''f1'') = ''image''
   \<and> r_timestamp_start (entry 1 ''g1'' ''f1'') = 0
   \<and> r_segment_id (entry 1 ''g1'' ''f1'') = []"
proof -
  have h: "healthy (legacy_store [])" by (simp add: healthy_def legacy_store_def)
  have c: "colls (legacy_store []) ''kb'' = Some legacy_collection" by (simp add: legacy_store_def)
  have l: "''media_type'' \<notin> set (schema_fields legacy_collection)"
    by (simp add: legacy_collection_def)
  have o: "set old_output_fields \<subseteq> set (schema_fields legacy_collection)"
    by (simp add: legacy_collection_def old_output_fields_def)
  have d: "[[1, 0 :: real]] \<noteq> []" "\<forall>q \<in> set [[1, 0 :: real]]. length q = 2"
    "\<forall>r \<in> set (rows legacy_collection). length (vector r) = 2"
    by (simp_all add: legacy_collection_def legacy_row_def)
  have p: "reorders (\<lambda>ids. ids)" by (simp add: reorders_def)
  from legacy_rows_read_back_with_defaults[OF h c l o d p, of 5 "Some ''audio''" "Some [10, 40]"]
  obtain out s1 where
    "search (\<lambda>ids. ids) ''kb'' [[1, 0]] 5 (Some ''audio'') (Some [10, 40]) (legacy_store [])
       = (Inr out, s1)"
    and "\<forall>e \<in> set out. r_media_type e = ''image'' \<and> r_timestamp_start e = 0
                  \<and> r_timestamp_end e = 0 \<and> r_duration e = 0 \<and> r_segment_id e = []"
    by blast
  then show ?thesis using h c l o p by (auto simp: legacy_search)
qed

text \<open>
  Claim C4 says that every record returned by a search with a media type filter and a
  time range satisfies both. The filters reach only the search with the new field list.
  When that search raises, \<^verbatim>\<open>search\<close> falls back to the legacy field list, which
  takes no filter and labels every record with the defaults: on the collection without
  media fields a search for \<open>audio\<close> between 10 and 40 returns the group of the stored
  row as an \<open>image\<close> at time 0.
\<close>

theorem filter_dropped_by_legacy_fallback:
  "search (\<lambda>ids. ids) ''kb'' [[1, 0]] 5 (Some ''audio'') (Some [10, 40]) (legacy_store [])
     = (Inr [entry 1 ''g1'' ''f1''], (legacy_store [])\<lparr>calls := [Query, Search, Search]\<rparr>)
   \<and> r_media_type (entry 1 ''g1'' ''f1'') \<noteq> ''audio''
   \<and> \<not> 10 \<le> r_timestamp_start (entry 1 ''g1'' ''f1'')"
proof (intro conjI)
  show "search (\<lambda>ids. ids) ''kb'' [[1, 0]] 5 (Some ''audio'') (Some [10, 40]) (legacy_store [])
     = (Inr [entry 1 ''g1'' ''f1''], (legacy_store [])\<lparr>calls := [Query, Search, Search]\<rparr>)"
    by (rule legacy_search)
  show "r_media_type (entry 1 ''g1'' ''f1'') \<noteq> ''audio''" by (simp add: entry_def)
  show "\<not> 10 \<le> r_timestamp_start (entry 1 ''g1'' ''f1'')" by (simp add: entry_def)
qed

text \<open>
  Claim C4, as the source has it. When the search with the new field list returns, it is
  the result of \<^verbatim>\<open>search\<close>; the two filters were combined with \<open>and\<close> and applied
  to the coarse hits, so every returned group has a row with the media type of the filter,
  \<open>timestamp_start \<ge> start\<close> and \<open>timestamp_end \<le> end\<close>. The returned record
  carries the media fields of the first fetched row of its group; when the rows of a group
  carry the same media fields, as one insert writes them, the returned record itself
  satisfies the filter. When the search with the new field list raises, the legacy search
  answers without the filters.
\<close>

theorem filtered_search_returns_matching_groups:
  assumes n: "search_with_new_schema completion collection_name data topk (Some mt)
                (Some [start_time, end_time]) s = (Inr out, s1)"
    and mt: "mt \<noteq> []" and c: "colls s collection_name = Some c"
    and perm: "reorders completion"
  shows "search completion collection_name data topk (Some mt) (Some [start_time, end_time]) s
           = (Inr out, s1)
       \<and> (\<forall>e \<in> set out. \<exists>r \<in> set (rows c).
              image_id r = r_image_id e \<and> media_type r = Some mt
              \<and> (\<exists>x. timestamp_start r = Some x \<and> start_time \<le> x)
              \<and> (\<exists>y. timestamp_end r = Some y \<and> y \<le> end_time))
       \<and> (uniform_groups c \<longrightarrow>
             (\<forall>e \<in> set out. r_media_type e = mt \<and> start_time \<le> r_timestamp_start e
                              \<and> r_timestamp_end e \<le> end_time))"
proof -
  from new_schema_search_steps[OF n mt] obtain results t where
    q: "client_search collection_name data 50 new_output_fields
             (And (StrEq ''media_type'' mt)
                (And (NumGe ''timestamp_start'' start_time) (NumLe ''timestamp_end'' end_time))) s
             = (Inr results, t)"
    and p: "process_search_results completion results data collection_name topk
              new_output_fields False t = (Inr out, s1)"
    by blast
  have 1: "search completion collection_name data topk (Some mt) (Some [start_time, end_time]) s
           = (Inr out, s1)"
    using n by (simp add: search_def)
  have 2: "\<exists>r \<in> set (rows c).
              image_id r = r_image_id e \<and> media_type r = Some mt
              \<and> (\<exists>x. timestamp_start r = Some x \<and> start_time \<le> x)
              \<and> (\<exists>y. timestamp_end r = Some y \<and> y \<le> end_time)"
    if "e \<in> set out" for e
  proof -
    from filtered_entry[OF q p c perm that] obtain r r' sc where
      r': "r' \<in> set (rows c)" and id: "image_id r' = image_id r"
      and re: "result_entry (sc, group_metadata (image_id r) r False) = Inr e"
      and f: "media_type r' = Some mt" "\<exists>x. timestamp_start r' = Some x \<and> start_time \<le> x"
        "\<exists>y. timestamp_end r' = Some y \<and> y \<le> end_time"
      by blast
    from result_entry_Inr(2)[OF re] have "r_image_id e = image_id r"
      by (simp add: group_metadata_def)
    with id have "image_id r' = r_image_id e" by simp
    with r' f show ?thesis by blast
  qed
  have 3: "r_media_type e = mt \<and> start_time \<le> r_timestamp_start e
             \<and> r_timestamp_end e \<le> end_time"
    if u: "uniform_groups c" and e: "e \<in> set out" for e
  proof -
    from filtered_entry[OF q p c perm e] obtain r r' sc x y where
      r: "r \<in> set (rows c)" and r': "r' \<in> set (rows c)" and id: "image_id r' = image_id r"
      and re: "result_entry (sc, group_metadata (image_id r) r False) = Inr e"
      and f: "media_type r' = Some mt" "timestamp_start r' = Some x" "start_time \<le> x"
        "timestamp_end r' = Some y" "y \<le> end_time"
      by blast
    from u r r' id have "media_type r' = media_type r \<and> timestamp_start r' = timestamp_start r
        \<and> timestamp_end r' = timestamp_end r"
      unfolding uniform_groups_def by blast
    with f have m: "media_type r = Some mt" "timestamp_start r = Some x" "timestamp_end r = Some y"
      by simp_all
    from result_entry_Inr(5)[OF re] m have a: "r_media_type e = mt"
      by (simp add: group_metadata_def get_default_def)
    from result_entry_Inr(6)[OF re] m have b: "r_timestamp_start e = x"
      by (simp add: group_metadata_def get_default_def)
    from result_entry_Inr(7)[OF re] m have d: "r_timestamp_end e = y"
      by (simp add: group_metadata_def get_default_def)
    from a b d f(3,5) show ?thesis by simp
  qed
  from 1 2 3 show ?thesis by blast
qed


theorem filtered_search_returns_matching_groups_witness:
  "search_with_new_schema (\<lambda>ids. ids) ''kb'' [[0, 1]] 5 (Some ''audio'') (Some [10, 40])
      (current_store [])
     = (Inr [audio_entry], (current_store [])\<lparr>calls := [Query, Search]\<rparr>)
   \<and> ''audio'' \<noteq> [] \<and> colls (current_store []) ''kb'' = Some current_collection
   \<and> reorders (\<lambda>ids. ids) \<and> uniform_groups current_collection
   \<and> search (\<lambda>ids. ids) ''kb'' [[0, 1]] 5 (Some ''audio'') (Some [10, 40]) (current_store [])
     = (Inr [audio_entry], (current_store [])\<lparr>calls := [Query, Search]\<rparr>)
   \<and> (r_media_type audio_entry = ''audio'' \<and> 10 \<le> r_timestamp_start audio_entry
        \<and> r_timestamp_end audio_entry \<le> 40)"
proof -
  have m: "''audio'' \<noteq> []" by simp
  have c: "colls (current_store []) ''kb'' = Some current_collection"
    by (simp add: current_store_def)
  have p: "reorders (\<lambda>ids. ids)" by (simp add: reorders_def)
  have u: "uniform_groups current_collection"
    by (simp add: uniform_groups_def current_collection_def)
  note t = filtered_search_returns_matching_groups[OF current_search m c p]
  from t have s: "search (\<lambda>ids. ids) ''kb'' [[0, 1]] 5 (Some ''audio'') (Some [10, 40])
                    (current_store [])
     = (Inr [audio_entry], (current_store [])\<lparr>calls := [Query, Search]\<rparr>)"
    by (rule conjunct1)
  from t u have "\<forall>e \<in> set [audio_entry]. r_media_type e = ''audio'' \<and> 10 \<le> r_timestamp_start e
                              \<and> r_timestamp_end e \<le> 40"
    by blast
  then have f: "r_media_type audio_entry = ''audio'' \<and> 10 \<le> r_timestamp_start audio_entry
        \<and> r_timestamp_end audio_entry \<le> 40"
    by simp
  from current_search m c p u s f show ?thesis by blast
qed

end
